theory Spec2Isabelle
  imports Complex_Main
begin

section \<open>JavaScript values and platform functions used by the request manager\<close>

text \<open>
  The manager (\<^verbatim>\<open>SafeRequestManager\<close>) works on JavaScript numbers, optional fields and
  strings. Numbers that measure time (milliseconds) are modelled as \<^typ>\<open>real\<close>, counters
  as \<^typ>\<open>nat\<close> or \<^typ>\<open>int\<close>, an optional field as an \<^typ>\<open>'a option\<close>.

  \<^verbatim>\<open>x || d\<close> on an optional number yields \<^verbatim>\<open>d\<close> when \<^verbatim>\<open>x\<close> is \<^verbatim>\<open>undefined\<close> and also
  when it is \<^verbatim>\<open>0\<close>, since \<^verbatim>\<open>0\<close> is falsy.
\<close>

definition or_default :: "'a::zero option \<Rightarrow> 'a \<Rightarrow> 'a" where
  "or_default x d = (case x of None \<Rightarrow> d | Some v \<Rightarrow> if v = 0 then d else v)"

text \<open>
  \<^verbatim>\<open>parseInt(s)\<close> without a radix: leading white space is skipped, an optional sign is
  read, a prefix \<^verbatim>\<open>0x\<close>/\<^verbatim>\<open>0X\<close> selects radix 16, then the longest run of digits is read;
  no digit at all gives \<^verbatim>\<open>NaN\<close>, here \<^term>\<open>None\<close>. A \<^typ>\<open>char\<close> is one code unit of the
  string: the value of an HTTP header is decoded byte by byte, so its code units are
  below 256, and the white space of JavaScript among them is tab, line feed, vertical
  tab, form feed, carriage return, space and the no-break space \<open>0xA0\<close>. The result is
  the exact integer, which is what the double holds below \<open>2^53\<close>; above, the double is
  a rounded value of the same sign and at least \<open>2^53\<close> in size, which makes no
  difference where the result is only compared with 0 and clamped by a smaller bound.
\<close>

definition isWhiteSpace :: "char \<Rightarrow> bool" where
  "isWhiteSpace c =
     (c \<in> set [CHR '' '', CHR 0x09, CHR 0x0A, CHR 0x0B, CHR 0x0C, CHR 0x0D, CHR 0xA0])"

definition digitValue :: "char \<Rightarrow> nat option" where
  "digitValue c =
     (let n = (of_char c :: nat) in
      if 48 \<le> n \<and> n \<le> 57 then Some (n - 48)
      else if 97 \<le> n \<and> n \<le> 122 then Some (n - 87)
      else if 65 \<le> n \<and> n \<le> 90 then Some (n - 55)
      else None)"

fun parseDigits :: "nat \<Rightarrow> string \<Rightarrow> nat option \<Rightarrow> nat option" where
  "parseDigits R [] acc = acc"
| "parseDigits R (c # cs) acc =
     (case digitValue c of
        None \<Rightarrow> acc
      | Some d \<Rightarrow>
          if d < R
          then parseDigits R cs (Some ((case acc of None \<Rightarrow> 0 | Some a \<Rightarrow> a) * R + d))
          else acc)"

definition stripSign :: "string \<Rightarrow> bool \<times> string" where
  "stripSign s =
     (case s of
        [] \<Rightarrow> (False, [])
      | c # cs \<Rightarrow>
          if c = CHR ''-'' then (True, cs)
          else if c = CHR ''+'' then (False, cs)
          else (False, s))"

definition stripRadix :: "string \<Rightarrow> nat \<times> string" where
  "stripRadix s =
     (case s of
        a # b # cs \<Rightarrow>
          if a = CHR ''0'' \<and> (b = CHR ''x'' \<or> b = CHR ''X'') then (16, cs) else (10, s)
      | _ \<Rightarrow> (10, s))"

definition parseInt :: "string \<Rightarrow> int option" where
  "parseInt s =
     (case stripSign (dropWhile isWhiteSpace s) of
        (neg, s2) \<Rightarrow>
          (case stripRadix s2 of
             (R, s3) \<Rightarrow>
               map_option (\<lambda>n. if neg then - int n else int n) (parseDigits R s3 None)))"

section \<open>Data model\<close>

record RateLimiterConfig =
  maxRetries :: "int option"
  baseDelay :: "real option"
  maxDelay :: "real option"
  timeout :: "real option"
  concurrency :: "nat option"

text \<open>
  The part of an axios response and of an axios error that the manager reads:
  \<^verbatim>\<open>error.response\<close> (absent on a network-level failure), \<^verbatim>\<open>error.response.status\<close>,
  \<^verbatim>\<open>error.response.headers\<close> and \<^verbatim>\<open>error.code\<close>.
\<close>

record AxiosResponse =
  status :: int
  headers :: "string \<rightharpoonup> string"

record AxiosError =
  response :: "AxiosResponse option"
  code :: "string option"

text \<open>The fields of a parsed \<^verbatim>\<open>URL\<close> object.\<close>

record URL =
  protocol :: string
  hostname :: string
  port :: string
  pathname :: string

record AxiosRequestConfig =
  url :: "string option"
  req_timeout :: "real option"

text \<open>What one call \<^verbatim>\<open>await axios(requestConfig)\<close> does: it returns a response or throws.\<close>

datatype outcome = Success AxiosResponse | Failure AxiosError

text \<open>How the promise returned by \<^verbatim>\<open>request\<close> settles.\<close>

datatype settled = Resolved AxiosResponse | Rejected AxiosError | TypeError

text \<open>
  A \<^verbatim>\<open>pLimit(n)\<close> object: its concurrency and the number of callbacks it is running.
  The manager holds references to such objects; a reference is the index of the object
  in \<open>limits\<close>, the list of the objects created so far.
\<close>

record Limit =
  limit_concurrency :: nat
  activeCount :: nat

record SafeRequestManager =
  limiters :: "string \<rightharpoonup> nat"
  rateLimitConfig :: "string \<rightharpoonup> RateLimiterConfig"
  lastRequestTime :: "string \<rightharpoonup> real"
  limits :: "Limit list"

definition minRequestInterval :: real where
  "minRequestInterval = 100"

section \<open>Construction and policy resolution\<close>

definition pLimit :: "nat \<Rightarrow> Limit" where
  "pLimit n = \<lparr>limit_concurrency = n, activeCount = 0\<rparr>"

definition configureRateLimit ::
  "string \<Rightarrow> RateLimiterConfig \<Rightarrow> SafeRequestManager \<Rightarrow> SafeRequestManager" where
  "configureRateLimit domain config m =
     m\<lparr>rateLimitConfig := (rateLimitConfig m)(domain \<mapsto> config),
       limiters := (limiters m)(domain \<mapsto> length (limits m)),
       limits := limits m @ [pLimit (or_default (concurrency config) 2)]\<rparr>"

definition empty_manager :: SafeRequestManager where
  "empty_manager =
     \<lparr>limiters = Map.empty, rateLimitConfig = Map.empty, lastRequestTime = Map.empty,
      limits = []\<rparr>"

definition anilist_config :: RateLimiterConfig where
  "anilist_config =
     \<lparr>maxRetries = Some 5, baseDelay = Some 1000, maxDelay = Some 30000,
      timeout = Some 10000, concurrency = Some 2\<rparr>"

definition mal_config :: RateLimiterConfig where
  "mal_config =
     \<lparr>maxRetries = Some 5, baseDelay = Some 1000, maxDelay = Some 30000,
      timeout = Some 10000, concurrency = Some 1\<rparr>"

definition tmdb_config :: RateLimiterConfig where
  "tmdb_config =
     \<lparr>maxRetries = Some 5, baseDelay = Some 500, maxDelay = Some 15000,
      timeout = Some 10000, concurrency = Some 3\<rparr>"

definition localhost_config :: RateLimiterConfig where
  "localhost_config =
     \<lparr>maxRetries = Some 3, baseDelay = Some 500, maxDelay = Some 10000,
      timeout = Some 5000, concurrency = Some 5\<rparr>"

definition default_config :: RateLimiterConfig where
  "default_config =
     \<lparr>maxRetries = Some 3, baseDelay = Some 1000, maxDelay = Some 20000,
      timeout = Some 10000, concurrency = Some 2\<rparr>"

text \<open>The constructor: five calls of \<^verbatim>\<open>configureRateLimit\<close>, in the source's order.\<close>

definition new_SafeRequestManager :: SafeRequestManager where
  "new_SafeRequestManager =
     (configureRateLimit ''default'' default_config
      (configureRateLimit ''localhost'' localhost_config
       (configureRateLimit ''api.themoviedb.org'' tmdb_config
        (configureRateLimit ''api.myanimelist.net'' mal_config
         (configureRateLimit ''graphql.anilist.co'' anilist_config empty_manager)))))"

text \<open>
  \<^verbatim>\<open>getDomain\<close>: \<^verbatim>\<open>new URL(url).hostname\<close>, and \<^verbatim>\<open>'default'\<close> when the constructor throws.
  The platform's URL parser is the parameter \<open>U\<close>: \<open>U u\<close> is the parsed URL, or
  \<^term>\<open>None\<close> where \<^verbatim>\<open>new URL(u)\<close> throws.
\<close>

definition getDomain :: "(string \<Rightarrow> URL option) \<Rightarrow> string \<Rightarrow> string" where
  "getDomain U u = (case U u of Some urlObj \<Rightarrow> hostname urlObj | None \<Rightarrow> ''default'')"

definition getConfig :: "SafeRequestManager \<Rightarrow> string \<Rightarrow> RateLimiterConfig option" where
  "getConfig m domain =
     (case rateLimitConfig m domain of
        Some c \<Rightarrow> Some c
      | None \<Rightarrow> rateLimitConfig m ''default'')"

definition getLimiter :: "SafeRequestManager \<Rightarrow> string \<Rightarrow> nat option" where
  "getLimiter m domain =
     (case limiters m domain of
        Some l \<Rightarrow> Some l
      | None \<Rightarrow> limiters m ''default'')"

section \<open>Retry decision\<close>

definition calculateBackoffDelay :: "nat \<Rightarrow> real \<Rightarrow> real \<Rightarrow> real \<Rightarrow> real" where
  \<comment> \<open>The last argument is the value that \<^verbatim>\<open>Math.random()\<close> returns, in \<open>[0, 1)\<close>.\<close>
  "calculateBackoffDelay retryCount bDelay mDelay rnd =
     (let exponentialDelay = bDelay * 2 ^ retryCount;
          jitter = rnd * bDelay * 0.5
      in min (exponentialDelay + jitter) mDelay)"

definition shouldRetry :: "AxiosError \<Rightarrow> nat \<Rightarrow> int \<Rightarrow> bool" where
  "shouldRetry error retryCount mRetries =
     (if int retryCount \<ge> mRetries then False
      else
        (case response error of
           None \<Rightarrow> True
         | Some r \<Rightarrow>
             if status r = 429 \<or> status r = 503 \<or> status r = 502 \<or> status r = 504 then True
             else if code error = Some ''ECONNABORTED'' \<or> code error = Some ''ETIMEDOUT''
               then True
             else if status r \<ge> 400 \<and> status r < 500 then False
             else if status r \<ge> 500 then True
             else False))"

definition getRetryDelay :: "AxiosError \<Rightarrow> nat \<Rightarrow> RateLimiterConfig \<Rightarrow> real \<Rightarrow> real" where
  "getRetryDelay error retryCount config rnd =
     (let retryAfter = Option.bind (response error) (\<lambda>r. headers r ''retry-after'');
          backoff = calculateBackoffDelay retryCount (or_default (baseDelay config) 1000)
                      (or_default (maxDelay config) 30000) rnd
      in case retryAfter of
           None \<Rightarrow> backoff
         | Some h \<Rightarrow>
             if h = [] then backoff
             else
               (case parseInt h of
                  None \<Rightarrow> backoff
                | Some n \<Rightarrow>
                    if real_of_int n * 1000 > 0
                    then min (real_of_int n * 1000) (or_default (maxDelay config) 30000)
                    else backoff))"

section \<open>The retry loop of one request\<close>

text \<open>
  What the callback given to the limiter does, as a list of events: the call of
  \<^verbatim>\<open>enforceRateLimit\<close>, the call of \<^verbatim>\<open>axios\<close> with the timeout it is given, and the
  backoff \<^verbatim>\<open>delay\<close>; \<open>Acquire\<close> and \<open>Release\<close> are the limiter starting the callback
  and the callback's promise settling.
\<close>

datatype event =
  Acquire nat
  | EnforceRateLimit string
  | Axios real
  | Delay real
  | Release nat

text \<open>
  The \<^verbatim>\<open>while (true)\<close> loop. The environment is \<open>axios\<close>, the outcome of the HTTP call
  of each attempt (attempts are numbered by \<open>retryCount\<close>), and \<open>rnd\<close>, the value of
  \<^verbatim>\<open>Math.random()\<close> in the backoff of each attempt. The loop ends because \<^verbatim>\<open>shouldRetry\<close>
  is false once \<open>retryCount\<close> has reached \<open>maxRetries\<close>.
\<close>

function retry_loop ::
  "(nat \<Rightarrow> outcome) \<Rightarrow> (nat \<Rightarrow> real) \<Rightarrow> AxiosRequestConfig \<Rightarrow> string \<Rightarrow> RateLimiterConfig
     \<Rightarrow> int \<Rightarrow> nat \<Rightarrow> settled \<times> event list" where
  "retry_loop axios rnd config domain rateLimitCfg mRetries retryCount =
     (case axios retryCount of
        Success r \<Rightarrow>
          (Resolved r,
           [EnforceRateLimit domain,
            Axios (or_default (req_timeout config) (or_default (timeout rateLimitCfg) 10000))])
      | Failure error \<Rightarrow>
          if shouldRetry error retryCount mRetries
          then
            (case retry_loop axios rnd config domain rateLimitCfg mRetries (Suc retryCount) of
               (res, evs) \<Rightarrow>
                 (res,
                  [EnforceRateLimit domain,
                   Axios (or_default (req_timeout config) (or_default (timeout rateLimitCfg) 10000)),
                   Delay (getRetryDelay error retryCount rateLimitCfg (rnd retryCount))] @ evs))
          else
            (Rejected error,
             [EnforceRateLimit domain,
              Axios (or_default (req_timeout config) (or_default (timeout rateLimitCfg) 10000))]))"
  by pat_completeness auto
termination
  by (relation "measure (\<lambda>(axios, rnd, config, domain, rateLimitCfg, mRetries, retryCount).
        nat (mRetries - int retryCount))")
     (auto simp: shouldRetry_def split: if_splits)

text \<open>
  \<^verbatim>\<open>request\<close>: the domain, its configuration and its limiter are resolved, then the loop
  runs as the limiter's callback. A manager without the \<^verbatim>\<open>'default'\<close> entries can leave
  both undefined: calling an undefined limiter throws a \<^verbatim>\<open>TypeError\<close> at once, and reading
  \<^verbatim>\<open>maxRetries\<close> of an undefined configuration throws it inside the callback.
\<close>

definition url_of :: "AxiosRequestConfig \<Rightarrow> string" where
  \<comment> \<open>\<^verbatim>\<open>config.url || ''\<close>\<close>
  "url_of config = (case url config of None \<Rightarrow> [] | Some s \<Rightarrow> s)"

definition request ::
  "(string \<Rightarrow> URL option) \<Rightarrow> SafeRequestManager \<Rightarrow> (nat \<Rightarrow> outcome) \<Rightarrow> (nat \<Rightarrow> real)
     \<Rightarrow> AxiosRequestConfig \<Rightarrow> settled \<times> event list" where
  "request U m axios rnd config =
     (let domain = getDomain U (url_of config)
      in case getLimiter m domain of
           None \<Rightarrow> (TypeError, [])
         | Some limiter \<Rightarrow>
             (case getConfig m domain of
                None \<Rightarrow> (TypeError, [Acquire limiter, Release limiter])
              | Some rateLimitCfg \<Rightarrow>
                  (case retry_loop axios rnd config domain rateLimitCfg
                          (or_default (maxRetries rateLimitCfg) 3) 0 of
                     (res, evs) \<Rightarrow> (res, [Acquire limiter] @ evs @ [Release limiter]))))"

definition attempts :: "event list \<Rightarrow> nat" where
  "attempts evs = length (filter (\<lambda>e. case e of Axios t \<Rightarrow> True | _ \<Rightarrow> False) evs)"

text \<open>
  The outcomes of an attempt that \<^verbatim>\<open>shouldRetry\<close> answers with \<^verbatim>\<open>true\<close> while retries
  remain: no response, status 429, 502, 503 or 504, a timeout code, or a status from 500.
\<close>

definition retryable :: "AxiosError \<Rightarrow> bool" where
  "retryable e =
     (case response e of
        None \<Rightarrow> True
      | Some r \<Rightarrow>
          status r = 429 \<or> status r = 502 \<or> status r = 503 \<or> status r = 504
          \<or> code e = Some ''ECONNABORTED'' \<or> code e = Some ''ETIMEDOUT''
          \<or> status r \<ge> 500)"

section \<open>Spacing of requests\<close>

text \<open>
  \<^verbatim>\<open>enforceRateLimit\<close> runs in two parts, separated by \<^verbatim>\<open>await this.delay(waitTime)\<close>
  when it has to wait. The first part reads the domain's last request time and the
  clock and computes the wait; the second part, run when the timer has fired, stores the
  clock's value of that moment.
\<close>

definition enforceRateLimit_waitTime :: "SafeRequestManager \<Rightarrow> string \<Rightarrow> real \<Rightarrow> real option" where
  "enforceRateLimit_waitTime m domain t =
     (let lastRequest = or_default (lastRequestTime m domain) 0;
          timeSinceLastRequest = t - lastRequest
      in if timeSinceLastRequest < minRequestInterval
         then Some (minRequestInterval - timeSinceLastRequest)
         else None)"

definition enforceRateLimit_set :: "SafeRequestManager \<Rightarrow> string \<Rightarrow> real \<Rightarrow> SafeRequestManager" where
  "enforceRateLimit_set m domain t = m\<lparr>lastRequestTime := (lastRequestTime m)(domain \<mapsto> t)\<rparr>"

section \<open>Concurrent requests\<close>

text \<open>
  Several calls of \<^verbatim>\<open>request\<close> run interleaved on one event loop. Each call is a task;
  between two \<^verbatim>\<open>await\<close>s a task runs alone. A task waits in the limiter's queue
  (\<open>Queued\<close>), waits for the spacing timer of \<^verbatim>\<open>enforceRateLimit\<close> (\<open>Spacing\<close>, with
  the time the timer is due), waits for \<^verbatim>\<open>axios\<close> (\<open>InFlight\<close>), waits for the backoff
  timer (\<open>Backoff\<close>), or has settled.
\<close>

datatype phase = Queued | Spacing real | InFlight | Backoff real | Settled settled

record task =
  t_config :: AxiosRequestConfig
  t_domain :: string
  t_rateLimitCfg :: "RateLimiterConfig option"
  t_limiter :: nat
  t_retryCount :: nat
  t_phase :: phase

text \<open>
  The state: the manager, the clock (\<^verbatim>\<open>Date.now()\<close>), the tasks, and the log of the calls
  of \<^verbatim>\<open>axios\<close> made so far (task, domain, time of the call).
\<close>

record system =
  manager :: SafeRequestManager
  clock :: real
  tasks :: "task list"
  calls :: "(nat \<times> string \<times> real) list"

text \<open>
  The limiter, as \<^verbatim>\<open>p-limit\<close> documents it: a callback starts only while fewer than
  \<open>concurrency\<close> callbacks are running, callbacks start in the order they were queued,
  \<open>activeCount\<close> is incremented when a callback starts and decremented when its promise
  settles.
\<close>

definition limit_run :: "nat \<Rightarrow> SafeRequestManager \<Rightarrow> SafeRequestManager" where
  "limit_run l m =
     m\<lparr>limits := (limits m)[l := (limits m ! l)\<lparr>activeCount := activeCount (limits m ! l) + 1\<rparr>]\<rparr>"

definition limit_next :: "nat \<Rightarrow> SafeRequestManager \<Rightarrow> SafeRequestManager" where
  "limit_next l m =
     m\<lparr>limits := (limits m)[l := (limits m ! l)\<lparr>activeCount := activeCount (limits m ! l) - 1\<rparr>]\<rparr>"

definition is_queued :: "task \<Rightarrow> bool" where
  "is_queued t = (case t_phase t of Queued \<Rightarrow> True | _ \<Rightarrow> False)"

definition in_flight :: "task \<Rightarrow> bool" where
  "in_flight t = (case t_phase t of InFlight \<Rightarrow> True | _ \<Rightarrow> False)"

text \<open>A task whose callback has started and has not settled occupies a slot of its limiter.\<close>

definition running :: "task \<Rightarrow> bool" where
  "running t =
     (case t_phase t of Spacing w \<Rightarrow> True | InFlight \<Rightarrow> True | Backoff w \<Rightarrow> True | _ \<Rightarrow> False)"

definition set_phase :: "nat \<Rightarrow> phase \<Rightarrow> system \<Rightarrow> system" where
  "set_phase i p s = s\<lparr>tasks := (tasks s)[i := (tasks s ! i)\<lparr>t_phase := p\<rparr>]\<rparr>"

text \<open>The end of \<^verbatim>\<open>enforceRateLimit\<close> and the call of \<^verbatim>\<open>axios\<close> that follows it.\<close>

definition call_axios :: "nat \<Rightarrow> system \<Rightarrow> system" where
  "call_axios i s =
     (let domain = t_domain (tasks s ! i) in
      set_phase i InFlight
        (s\<lparr>manager := enforceRateLimit_set (manager s) domain (clock s),
           calls := calls s @ [(i, domain, clock s)]\<rparr>))"

text \<open>The head of the loop: \<^verbatim>\<open>enforceRateLimit\<close> up to its \<^verbatim>\<open>await\<close>, if it waits.\<close>

definition start_attempt :: "nat \<Rightarrow> system \<Rightarrow> system" where
  "start_attempt i s =
     (case enforceRateLimit_waitTime (manager s) (t_domain (tasks s ! i)) (clock s) of
        Some waitTime \<Rightarrow> set_phase i (Spacing (clock s + waitTime)) s
      | None \<Rightarrow> call_axios i s)"

text \<open>The callback's promise settles: the task is done and the limiter's slot is free.\<close>

definition settle :: "nat \<Rightarrow> settled \<Rightarrow> system \<Rightarrow> system" where
  "settle i r s =
     set_phase i (Settled r) (s\<lparr>manager := limit_next (t_limiter (tasks s ! i)) (manager s)\<rparr>)"

text \<open>
  What can happen next: \<^verbatim>\<open>request\<close> is called; the limiter starts the callback of a
  queued task; a timer a task waits for fires (the platform aims at the time the timer
  is due, but the code does not read the clock to check it, and nothing is assumed
  here about how early or late the timer fires); the HTTP call
  of a task returns or throws (with the value \<^verbatim>\<open>Math.random()\<close> gives if a backoff is
  computed); time passes. An action that cannot happen in the state gives \<^term>\<open>None\<close>.
  A call of \<^verbatim>\<open>request\<close> that finds no limiter throws and leaves the state as it is; a
  callback that finds no configuration throws as soon as it starts.
\<close>

datatype action =
  Request AxiosRequestConfig
  | Start nat
  | Timer nat
  | Respond nat outcome real
  | Tick real

fun step :: "(string \<Rightarrow> URL option) \<Rightarrow> system \<Rightarrow> action \<Rightarrow> system option" where
  "step U s (Request config) =
     (let domain = getDomain U (url_of config) in
      case getLimiter (manager s) domain of
        None \<Rightarrow> Some s
      | Some limiter \<Rightarrow>
          Some (s\<lparr>tasks := tasks s @
                  [\<lparr>t_config = config, t_domain = domain,
                    t_rateLimitCfg = getConfig (manager s) domain, t_limiter = limiter,
                    t_retryCount = 0, t_phase = Queued\<rparr>]\<rparr>))"
| "step U s (Start i) =
     (if i < length (tasks s) \<and> is_queued (tasks s ! i)
         \<and> \<not> list_ex (\<lambda>t. t_limiter t = t_limiter (tasks s ! i) \<and> is_queued t) (take i (tasks s))
         \<and> t_limiter (tasks s ! i) < length (limits (manager s))
         \<and> activeCount (limits (manager s) ! t_limiter (tasks s ! i))
             < limit_concurrency (limits (manager s) ! t_limiter (tasks s ! i))
      then
        (case t_rateLimitCfg (tasks s ! i) of
           None \<Rightarrow> Some (set_phase i (Settled TypeError) s)
         | Some rateLimitCfg \<Rightarrow>
             Some (start_attempt i
                     (s\<lparr>manager := limit_run (t_limiter (tasks s ! i)) (manager s)\<rparr>)))
      else None)"
| "step U s (Timer i) =
     (if i < length (tasks s) then
        (case t_phase (tasks s ! i) of
           Spacing due \<Rightarrow> Some (call_axios i s)
         | Backoff due \<Rightarrow>
             Some (start_attempt i
                    (s\<lparr>tasks := (tasks s)[i := (tasks s ! i)
                          \<lparr>t_retryCount := Suc (t_retryCount (tasks s ! i))\<rparr>]\<rparr>))
         | _ \<Rightarrow> None)
      else None)"
| "step U s (Respond i out rnd) =
     (if i < length (tasks s) \<and> in_flight (tasks s ! i) then
        (case t_rateLimitCfg (tasks s ! i) of
           None \<Rightarrow> None
         | Some rateLimitCfg \<Rightarrow>
             (case out of
                Success r \<Rightarrow> Some (settle i (Resolved r) s)
              | Failure error \<Rightarrow>
                  if shouldRetry error (t_retryCount (tasks s ! i))
                       (or_default (maxRetries rateLimitCfg) 3)
                  then Some (set_phase i
                         (Backoff (clock s
                            + getRetryDelay error (t_retryCount (tasks s ! i)) rateLimitCfg rnd)) s)
                  else Some (settle i (Rejected error) s)))
      else None)"
| "step U s (Tick dt) = (if 0 \<le> dt then Some (s\<lparr>clock := clock s + dt\<rparr>) else None)"

fun run :: "(string \<Rightarrow> URL option) \<Rightarrow> system \<Rightarrow> action list \<Rightarrow> system option" where
  "run U s [] = Some s"
| "run U s (a # as) = (case step U s a of None \<Rightarrow> None | Some s' \<Rightarrow> run U s' as)"

definition init :: "real \<Rightarrow> system" where
  "init t0 = \<lparr>manager = new_SafeRequestManager, clock = t0, tasks = [], calls = []\<rparr>"

text \<open>The number of HTTP calls in flight to a domain.\<close>

definition inflight_count :: "system \<Rightarrow> string \<Rightarrow> nat" where
  "inflight_count s domain =
     length (filter (\<lambda>t. t_domain t = domain \<and> in_flight t) (tasks s))"

text \<open>The log of calls read as a map: the time of the last call to each domain.\<close>

definition last_call :: "(nat \<times> string \<times> real) list \<Rightarrow> string \<Rightarrow> real option" where
  "last_call cs = foldl (\<lambda>m c. m(fst (snd c) \<mapsto> snd (snd c))) Map.empty cs"

subsection \<open>Invariants of the scheduler\<close>

text \<open>The slots of a limiter that tasks occupy.\<close>

definition slots_used :: "system \<Rightarrow> nat \<Rightarrow> nat" where
  "slots_used s l = length (filter (\<lambda>t. t_limiter t = l \<and> running t) (tasks s))"

text \<open>
  Two managers with the same registry: the same limiter and configuration maps and
  limiters of the same concurrency.
\<close>

definition same_registry :: "SafeRequestManager \<Rightarrow> SafeRequestManager \<Rightarrow> bool" where
  "same_registry m0 m \<longleftrightarrow>
     limiters m = limiters m0 \<and> rateLimitConfig m = rateLimitConfig m0 \<and>
     length (limits m) = length (limits m0) \<and>
     map limit_concurrency (limits m) = map limit_concurrency (limits m0)"

text \<open>
  What holds in every state reached from a manager \<open>m0\<close>: the registry is the one of
  \<open>m0\<close>, every task carries the limiter and the configuration of its domain, and every
  limiter counts exactly the tasks that occupy its slots, never more than its concurrency.
\<close>

definition sched_inv :: "SafeRequestManager \<Rightarrow> system \<Rightarrow> bool" where
  "sched_inv m0 s \<longleftrightarrow>
     same_registry m0 (manager s) \<and>
     (\<forall>t \<in> set (tasks s). getLimiter m0 (t_domain t) = Some (t_limiter t)
                  \<and> t_rateLimitCfg t = getConfig m0 (t_domain t)) \<and>
     (\<forall>l < length (limits (manager s)).
         activeCount (limits (manager s) ! l) = slots_used s l
       \<and> activeCount (limits (manager s) ! l) \<le> limit_concurrency (limits (manager s) ! l))"

text \<open>A transition that changes one task and keeps its limiter, domain and configuration.\<close>

definition task_step :: "nat \<Rightarrow> task \<Rightarrow> system \<Rightarrow> system \<Rightarrow> bool" where
  "task_step i t' s s' \<longleftrightarrow>
     i < length (tasks s) \<and> tasks s' = (tasks s)[i := t'] \<and>
     t_limiter t' = t_limiter (tasks s ! i) \<and>
     t_domain t' = t_domain (tasks s ! i) \<and>
     t_rateLimitCfg t' = t_rateLimitCfg (tasks s ! i) \<and>
     limiters (manager s') = limiters (manager s) \<and>
     rateLimitConfig (manager s') = rateLimitConfig (manager s)"

text \<open>The last request time of a domain is the time of the last call logged for it.\<close>

definition watermark_inv :: "system \<Rightarrow> bool" where
  "watermark_inv s \<longleftrightarrow> lastRequestTime (manager s) = last_call (calls s)"

section \<open>Example inputs\<close>

text \<open>
  The URLs of the examples below and what the URL parser returns for them; on the other
  strings of the examples (the empty string and \<^verbatim>\<open>not a url\<close>) the parser throws.
\<close>

definition ex_url :: "string \<Rightarrow> URL option" where
  "ex_url u =
     (if u = ''https://graphql.anilist.co'' then
        Some \<lparr>protocol = ''https:'', hostname = ''graphql.anilist.co'', port = [], pathname = ''/''\<rparr>
      else if u = ''https://api.myanimelist.net/v2/anime'' then
        Some \<lparr>protocol = ''https:'', hostname = ''api.myanimelist.net'', port = [], pathname = ''/v2/anime''\<rparr>
      else if u = ''https://a.example/x'' then
        Some \<lparr>protocol = ''https:'', hostname = ''a.example'', port = [], pathname = ''/x''\<rparr>
      else if u = ''http://a.example:8080/z?q=1'' then
        Some \<lparr>protocol = ''http:'', hostname = ''a.example'', port = ''8080'', pathname = ''/z''\<rparr>
      else if u = ''http://b.example:8080/y'' then
        Some \<lparr>protocol = ''http:'', hostname = ''b.example'', port = ''8080'', pathname = ''/y''\<rparr>
      else None)"

definition ex_get :: "string \<Rightarrow> AxiosRequestConfig" where
  "ex_get u = \<lparr>url = Some u, req_timeout = None\<rparr>"

definition ex_unavailable :: AxiosError where
  "ex_unavailable = \<lparr>response = Some \<lparr>status = 503, headers = Map.empty\<rparr>, code = None\<rparr>"

definition ex_ok :: AxiosResponse where
  "ex_ok = \<lparr>status = 200, headers = Map.empty\<rparr>"

definition ex_retry_after :: "string \<Rightarrow> AxiosError" where
  "ex_retry_after h =
     \<lparr>response = Some \<lparr>status = 429, headers = [''retry-after'' \<mapsto> h]\<rparr>, code = None\<rparr>"

definition ex_network_error :: AxiosError where
  "ex_network_error = \<lparr>response = None, code = Some ''ECONNRESET''\<rparr>"

definition ex_bad_request :: AxiosError where
  "ex_bad_request =
     \<lparr>response = Some \<lparr>status = 400, headers = Map.empty\<rparr>, code = Some ''ERR_BAD_REQUEST''\<rparr>"

text \<open>
  Two requests to the domain with one slot; the first fails with status 503 and goes to
  its backoff sleep.
\<close>

definition ex_before_backoff :: "action list" where
  "ex_before_backoff =
     [Request (ex_get ''https://api.myanimelist.net/v2/anime''), Start 0,
      Request (ex_get ''https://api.myanimelist.net/v2/anime'')]"

definition ex_backoff_run :: "action list" where
  "ex_backoff_run = ex_before_backoff @ [Respond 0 (Failure ex_unavailable) 0]"




text \<open>Two requests to one unconfigured domain start; a request to another one arrives.\<close>

definition ex_shared_run :: "action list" where
  "ex_shared_run =
     [Request (ex_get ''https://a.example/x''), Request (ex_get ''https://a.example/x''),
      Start 0, Start 1, Request (ex_get ''http://b.example:8080/y'')]"

declare retry_loop.simps [simp del]

section \<open>The constructed manager\<close>

text \<open>
  The registry after the constructor has run: five configurations and five limiters.
\<close>

lemma new_unfold:
  "new_SafeRequestManager =
     \<lparr>limiters = [''graphql.anilist.co'' \<mapsto> 0, ''api.myanimelist.net'' \<mapsto> 1,
                  ''api.themoviedb.org'' \<mapsto> 2, ''localhost'' \<mapsto> 3, ''default'' \<mapsto> 4],
      rateLimitConfig =
        [''graphql.anilist.co'' \<mapsto> anilist_config, ''api.myanimelist.net'' \<mapsto> mal_config,
         ''api.themoviedb.org'' \<mapsto> tmdb_config, ''localhost'' \<mapsto> localhost_config,
         ''default'' \<mapsto> default_config],
      lastRequestTime = Map.empty,
      limits = [pLimit 2, pLimit 1, pLimit 3, pLimit 5, pLimit 2]\<rparr>"
  by (simp add: new_SafeRequestManager_def configureRateLimit_def empty_manager_def
      or_default_def anilist_config_def mal_config_def tmdb_config_def localhost_config_def
      default_config_def eval_nat_numeral)

lemma new_limiters:
  "limiters new_SafeRequestManager =
     [''graphql.anilist.co'' \<mapsto> 0, ''api.myanimelist.net'' \<mapsto> 1,
      ''api.themoviedb.org'' \<mapsto> 2, ''localhost'' \<mapsto> 3, ''default'' \<mapsto> 4]"
  by (simp add: new_unfold)

lemma new_rateLimitConfig:
  "rateLimitConfig new_SafeRequestManager =
     [''graphql.anilist.co'' \<mapsto> anilist_config, ''api.myanimelist.net'' \<mapsto> mal_config,
      ''api.themoviedb.org'' \<mapsto> tmdb_config, ''localhost'' \<mapsto> localhost_config,
      ''default'' \<mapsto> default_config]"
  by (simp add: new_unfold)

lemma new_limits:
  "limits new_SafeRequestManager = [pLimit 2, pLimit 1, pLimit 3, pLimit 5, pLimit 2]"
  by (simp add: new_unfold)

lemma new_lastRequestTime: "lastRequestTime new_SafeRequestManager = Map.empty"
  by (simp add: new_unfold)

lemma getLimiter_new_total: "\<exists>l. getLimiter new_SafeRequestManager d = Some l"
  by (simp add: getLimiter_def new_limiters)

lemma getConfig_new_total: "\<exists>c. getConfig new_SafeRequestManager d = Some c"
  by (simp add: getConfig_def new_rateLimitConfig)

lemma getConfig_new_default:
  "rateLimitConfig new_SafeRequestManager d = None
   \<Longrightarrow> getConfig new_SafeRequestManager d = Some default_config
     \<and> getLimiter new_SafeRequestManager d = Some 4"
  by (simp add: getConfig_def getLimiter_def new_rateLimitConfig new_limiters split: if_splits)

lemma getConfig_new_default_key:
  "getConfig new_SafeRequestManager ''default'' = Some default_config
   \<and> getLimiter new_SafeRequestManager ''default'' = Some 4"
  by (simp add: getConfig_def getLimiter_def new_rateLimitConfig new_limiters)

lemma new_limiters_dom:
  "dom (limiters new_SafeRequestManager)
     = {''graphql.anilist.co'', ''api.myanimelist.net'', ''api.themoviedb.org'', ''localhost'',
        ''default''}"
  by (auto simp: new_limiters split: if_splits)

lemma new_limiters_inj: "inj_on (limiters new_SafeRequestManager) (dom (limiters new_SafeRequestManager))"
  unfolding new_limiters_dom by (simp add: new_limiters)

lemma getLimiter_new_shared:
  "d \<notin> dom (limiters new_SafeRequestManager)
   \<Longrightarrow> getLimiter new_SafeRequestManager d = limiters new_SafeRequestManager ''default''"
  by (auto simp: getLimiter_def split: option.splits)

text \<open>
  The limiter of a domain of the constructed manager has the concurrency of the domain's policy.
\<close>

lemma new_limiter_concurrency:
  assumes "getLimiter new_SafeRequestManager d = Some l"
  shows "l < length (limits new_SafeRequestManager)"
    and "\<exists>cfg. getConfig new_SafeRequestManager d = Some cfg
           \<and> concurrency cfg = Some (limit_concurrency (limits new_SafeRequestManager ! l))"
  using assms
  by (auto simp: getLimiter_def getConfig_def new_limiters new_rateLimitConfig new_limits
      pLimit_def anilist_config_def mal_config_def tmdb_config_def localhost_config_def
      default_config_def split: if_splits)

text \<open>Every policy of the constructed manager has its fields set, to positive values.\<close>

lemma new_policy_fields:
  assumes "getConfig new_SafeRequestManager d = Some cfg"
  shows "\<exists>N B D. maxRetries cfg = Some N \<and> 1 \<le> N \<and> baseDelay cfg = Some B \<and> 0 < B
           \<and> maxDelay cfg = Some D \<and> 0 < D"
  using assms
  by (auto simp: getConfig_def new_rateLimitConfig anilist_config_def mal_config_def
      tmdb_config_def localhost_config_def default_config_def split: if_splits)

text \<open>
  The definitions that evaluate the examples.
\<close>

lemmas run_defs =
  init_def new_unfold Let_def getDomain_def url_of_def ex_get_def ex_url_def
  getLimiter_def getConfig_def is_queued_def in_flight_def start_attempt_def call_axios_def
  set_phase_def settle_def limit_run_def limit_next_def enforceRateLimit_waitTime_def
  enforceRateLimit_set_def minRequestInterval_def or_default_def shouldRetry_def
  getRetryDelay_def calculateBackoffDelay_def pLimit_def mal_config_def anilist_config_def
  default_config_def ex_unavailable_def ex_ok_def

lemmas parseInt_defs = parseInt_def stripSign_def stripRadix_def isWhiteSpace_def digitValue_def

lemma parseInt_Nil: "parseInt [] = None"
  by (simp add: parseInt_defs)

section \<open>Retry decision and retry delay\<close>

lemma shouldRetry_retryable: "retryable e \<Longrightarrow> shouldRetry e k M = (int k < M)"
  by (auto simp: retryable_def shouldRetry_def split: option.splits)

lemma shouldRetry_client_error:
  assumes "response e = Some r" and "400 \<le> status r" and "status r < 500"
    and "status r \<noteq> 429"
    and "code e \<noteq> Some ''ECONNABORTED''" and "code e \<noteq> Some ''ETIMEDOUT''"
  shows "\<not> shouldRetry e k M"
  using assms by (simp add: shouldRetry_def)

lemma getRetryDelay_no_header:
  "Option.bind (response e) (\<lambda>r. headers r ''retry-after'') = None
   \<Longrightarrow> getRetryDelay e k cfg rnd
       = calculateBackoffDelay k (or_default (baseDelay cfg) 1000)
           (or_default (maxDelay cfg) 30000) rnd"
  by (simp add: getRetryDelay_def Let_def)

section \<open>The retry loop\<close>

lemma attempts_simps [simp]:
  "attempts [] = 0"
  "attempts (Axios t # evs) = Suc (attempts evs)"
  "attempts (EnforceRateLimit d # evs) = attempts evs"
  "attempts (Delay x # evs) = attempts evs"
  "attempts (Acquire l # evs) = attempts evs"
  "attempts (Release l # evs) = attempts evs"
  "attempts (xs @ ys) = attempts xs + attempts ys"
  by (simp_all add: attempts_def)

lemma retry_loop_exhaust:
  assumes fail: "\<forall>k. \<exists>e. axios k = Failure e \<and> retryable e"
    and last: "axios (nat M) = Failure eN"
  shows "int k \<le> M \<Longrightarrow>
     \<exists>evs. retry_loop axios rnd config d cfg M k = (Rejected eN, evs)
           \<and> attempts evs = nat M - k + 1"
proof (induction "nat M - k" arbitrary: k)
  case 0
  then have kM: "k = nat M" by simp
  from fail obtain e where e: "axios k = Failure e" "retryable e" by blast
  with last kM have "e = eN" by simp
  moreover have "\<not> shouldRetry e k M" using e 0 by (simp add: shouldRetry_retryable)
  ultimately show ?case using e kM
    by (simp add: retry_loop.simps [of axios rnd config d cfg M "nat M"])
next
  case (Suc n)
  then have lt: "int k < M" by linarith
  from fail obtain e where e: "axios k = Failure e" "retryable e" by blast
  have sr: "shouldRetry e k M" using e lt by (simp add: shouldRetry_retryable)
  have "n = nat M - Suc k" using Suc by linarith
  moreover have "int (Suc k) \<le> M" using lt by simp
  ultimately obtain evs where
    evs: "retry_loop axios rnd config d cfg M (Suc k) = (Rejected eN, evs)"
         "attempts evs = nat M - Suc k + 1"
    using Suc.hyps(1) by blast
  have "nat M - k + 1 = Suc (nat M - Suc k + 1)" using lt by linarith
  then show ?case using e sr evs
    by (simp add: retry_loop.simps [of axios rnd config d cfg M k])
qed

lemma retry_loop_no_budget:
  assumes "axios 0 = Failure e" and "M \<le> 0"
  shows "retry_loop axios rnd config d cfg M 0
       = (Rejected e, [EnforceRateLimit d,
            Axios (or_default (req_timeout config) (or_default (timeout cfg) 10000))])"
  using assms by (simp add: retry_loop.simps [of axios rnd config d cfg M 0] shouldRetry_def)

lemma retry_loop_first_events:
  assumes "axios k = Failure e" and "shouldRetry e k M"
  shows "take 3 (snd (retry_loop axios rnds config d cfg M k))
       = [EnforceRateLimit d,
          Axios (or_default (req_timeout config) (or_default (timeout cfg) 10000)),
          Delay (getRetryDelay e k cfg (rnds k))]"
  using assms
  by (simp add: retry_loop.simps [of axios rnds config d cfg M k] split: prod.splits)

lemma retry_loop_not_TypeError:
  "fst (retry_loop axios rnd config d cfg M k) \<noteq> TypeError"
proof (induction axios rnd config d cfg M k rule: retry_loop.induct)
  case (1 axios rnd config domain rateLimitCfg mRetries retryCount)
  show ?case
  proof (cases "axios retryCount")
    case (Success r)
    then show ?thesis
      by (simp add: retry_loop.simps [of axios rnd config domain rateLimitCfg mRetries retryCount])
  next
    case (Failure error)
    show ?thesis
    proof (cases "shouldRetry error retryCount mRetries")
      case True
      with Failure 1 show ?thesis
        by (cases "retry_loop axios rnd config domain rateLimitCfg mRetries (Suc retryCount)")
           (simp add: retry_loop.simps [of axios rnd config domain rateLimitCfg mRetries retryCount])
    next
      case False
      with Failure show ?thesis
        by (simp add: retry_loop.simps [of axios rnd config domain rateLimitCfg mRetries retryCount])
    qed
  qed
qed

lemma request_new:
  "\<exists>cfg l. getConfig new_SafeRequestManager (getDomain U (url_of config)) = Some cfg
     \<and> getLimiter new_SafeRequestManager (getDomain U (url_of config)) = Some l
     \<and> request U new_SafeRequestManager axios rnd config
       = (fst (retry_loop axios rnd config (getDomain U (url_of config)) cfg
                 (or_default (maxRetries cfg) 3) 0),
          [Acquire l]
          @ snd (retry_loop axios rnd config (getDomain U (url_of config)) cfg
                   (or_default (maxRetries cfg) 3) 0)
          @ [Release l])"
proof -
  obtain cfg where c: "getConfig new_SafeRequestManager (getDomain U (url_of config)) = Some cfg"
    using getConfig_new_total by blast
  obtain l where l: "getLimiter new_SafeRequestManager (getDomain U (url_of config)) = Some l"
    using getLimiter_new_total by blast
  show ?thesis using c l by (simp add: request_def Let_def split: prod.splits)
qed

lemma request_new_default:
  assumes "getConfig new_SafeRequestManager (getDomain U (url_of config)) = Some default_config"
    and "getLimiter new_SafeRequestManager (getDomain U (url_of config)) = Some 4"
  shows "request U new_SafeRequestManager axios rnd config
       = (fst (retry_loop axios rnd config (getDomain U (url_of config)) default_config 3 0),
          [Acquire 4]
          @ snd (retry_loop axios rnd config (getDomain U (url_of config)) default_config 3 0)
          @ [Release 4])"
  using assms
  by (simp add: request_def Let_def default_config_def or_default_def split: prod.splits)

lemma request_exhausts_general:
  assumes cfg: "getConfig m (getDomain U (url_of config)) = Some cfg"
    and lim: "getLimiter m (getDomain U (url_of config)) = Some l"
    and M: "M = or_default (maxRetries cfg) 3"
    and fail: "\<forall>k. \<exists>e. axios k = Failure e \<and> retryable e"
    and last: "axios (nat M) = Failure eN"
  shows "\<exists>evs. request U m axios rnd config = (Rejected eN, evs) \<and> attempts evs = nat M + 1"
proof -
  have "\<exists>evs. retry_loop axios rnd config (getDomain U (url_of config)) cfg M 0
                = (Rejected eN, evs) \<and> attempts evs = nat M + 1"
  proof (cases "0 \<le> M")
    case True
    then have "int 0 \<le> M" by simp
    from retry_loop_exhaust [OF fail last this] show ?thesis by simp
  next
    case False
    then have "M \<le> 0" and "nat M = 0" by simp_all
    with last retry_loop_no_budget [of axios eN M rnd config "getDomain U (url_of config)" cfg]
    show ?thesis by simp
  qed
  then obtain evs where
    "retry_loop axios rnd config (getDomain U (url_of config)) cfg M 0 = (Rejected eN, evs)"
    "attempts evs = nat M + 1"
    by blast
  then show ?thesis using cfg lim M
    by (simp add: request_def Let_def)
qed

text \<open>
  Claim C1. For every request on the constructed manager, let \<open>N\<close> be the \<open>maxRetries\<close> of
  the policy its domain resolves to. If every attempt fails with a retryable outcome (no
  response, status 429, 502, 503 or 504, a timeout code, or another status from 500),
  \<^verbatim>\<open>request\<close> makes exactly \<open>N + 1\<close> calls of \<^verbatim>\<open>axios\<close> and then rejects with the error of
  the last of them; it does not resolve.
\<close>

theorem request_exhausts_retries:
  assumes fail: "\<forall>k. \<exists>e. axios k = Failure e \<and> retryable e"
  shows "\<exists>cfg N eN evs.
           getConfig new_SafeRequestManager (getDomain U (url_of config)) = Some cfg
         \<and> maxRetries cfg = Some N
         \<and> axios (nat N) = Failure eN
         \<and> request U new_SafeRequestManager axios rnd config = (Rejected eN, evs)
         \<and> int (attempts evs) = N + 1"
proof -
  obtain cfg where cfg: "getConfig new_SafeRequestManager (getDomain U (url_of config)) = Some cfg"
    using getConfig_new_total by blast
  obtain l where l: "getLimiter new_SafeRequestManager (getDomain U (url_of config)) = Some l"
    using getLimiter_new_total by blast
  from new_policy_fields [OF cfg] obtain N where N: "maxRetries cfg = Some N" "1 \<le> N"
    by blast
  then have M: "N = or_default (maxRetries cfg) 3" by (simp add: or_default_def)
  from fail obtain eN where eN: "axios (nat N) = Failure eN" by blast
  from request_exhausts_general [OF cfg l M fail eN, of rnd] obtain evs where
    "request U new_SafeRequestManager axios rnd config = (Rejected eN, evs)"
    "attempts evs = nat N + 1"
    by blast
  moreover from this(2) N(2) have "int (attempts evs) = N + 1" by simp
  ultimately show ?thesis using cfg N(1) eN by blast
qed

text \<open>
  The theorem at the policy of \<^verbatim>\<open>graphql.anilist.co\<close> (\<open>maxRetries = 5\<close>) and a server
  that always answers 503: six attempts.
\<close>

theorem request_exhausts_retries_witness:
  "\<exists>evs. request ex_url new_SafeRequestManager (\<lambda>k. Failure ex_unavailable) (\<lambda>k. 0)
            (ex_get ''https://graphql.anilist.co'') = (Rejected ex_unavailable, evs)
         \<and> attempts evs = 6"
proof -
  have d: "getDomain ex_url (url_of (ex_get ''https://graphql.anilist.co'')) = ''graphql.anilist.co''"
    by (simp add: url_of_def ex_get_def getDomain_def ex_url_def)
  have c: "getConfig new_SafeRequestManager ''graphql.anilist.co'' = Some anilist_config"
    by (simp add: getConfig_def new_rateLimitConfig)
  have f: "\<forall>k. \<exists>e. (\<lambda>k::nat. Failure ex_unavailable) k = Failure e \<and> retryable e"
    by (simp add: retryable_def ex_unavailable_def)
  from request_exhausts_retries [OF f, of ex_url "ex_get ''https://graphql.anilist.co''" "\<lambda>k. 0"]
  obtain cfg N eN evs where
    r: "getConfig new_SafeRequestManager ''graphql.anilist.co'' = Some cfg"
       "maxRetries cfg = Some N"
       "Failure ex_unavailable = Failure eN"
       "request ex_url new_SafeRequestManager (\<lambda>k. Failure ex_unavailable) (\<lambda>k. 0)
            (ex_get ''https://graphql.anilist.co'') = (Rejected eN, evs)"
       "int (attempts evs) = N + 1"
    unfolding d by blast
  from r(1) c have "cfg = anilist_config" by simp
  with r(2) have "N = 5" by (simp add: anilist_config_def)
  with r(5) have "attempts evs = 6" by simp
  with r(3,4) show ?thesis by auto
qed

text \<open>
  Claim C7. An attempt that fails with a response whose status is a client error other
  than 429, and whose error code is not a timeout code, is not retried whatever the
  retry count and the retry budget are: the loop rejects with that error at once. When
  it is the first attempt, \<^verbatim>\<open>request\<close> rejects with the error after exactly one
  attempt.
\<close>

theorem client_error_not_retried:
  assumes "axios k = Failure e" and "response e = Some r"
    and "400 \<le> status r" and "status r < 500" and "status r \<noteq> 429"
    and "code e \<noteq> Some ''ECONNABORTED''" and "code e \<noteq> Some ''ETIMEDOUT''"
  shows "\<not> shouldRetry e k M
       \<and> retry_loop axios rnd config d cfg M k
           = (Rejected e, [EnforceRateLimit d,
                Axios (or_default (req_timeout config) (or_default (timeout cfg) 10000))])
       \<and> (k = 0 \<longrightarrow> fst (request U new_SafeRequestManager axios rnd config) = Rejected e
                    \<and> attempts (snd (request U new_SafeRequestManager axios rnd config)) = 1)"
proof -
  have nr: "\<not> shouldRetry e k M" for M
    by (rule shouldRetry_client_error [OF assms(2-7)])
  have loop: "retry_loop axios rnd config d cfg M k
           = (Rejected e, [EnforceRateLimit d,
                Axios (or_default (req_timeout config) (or_default (timeout cfg) 10000))])"
    for d cfg M
    using assms(1) nr [of M] by (simp add: retry_loop.simps [of axios rnd config d cfg M k])
  have "fst (request U new_SafeRequestManager axios rnd config) = Rejected e
        \<and> attempts (snd (request U new_SafeRequestManager axios rnd config)) = 1" if "k = 0"
  proof -
    from request_new [of U config axios rnd] obtain cfg' l where
      "request U new_SafeRequestManager axios rnd config
       = (fst (retry_loop axios rnd config (getDomain U (url_of config)) cfg'
                 (or_default (maxRetries cfg') 3) 0),
          [Acquire l]
          @ snd (retry_loop axios rnd config (getDomain U (url_of config)) cfg'
                   (or_default (maxRetries cfg') 3) 0)
          @ [Release l])"
      by blast
    then show ?thesis
      using loop [of "getDomain U (url_of config)" cfg' "or_default (maxRetries cfg') 3"] that
      by simp
  qed
  with nr [of M] loop [of d cfg M] show ?thesis by blast
qed

text \<open>
  The theorem at a request answered with status 400.
\<close>

theorem client_error_not_retried_witness:
  "\<not> shouldRetry ex_bad_request 0 5
   \<and> fst (request ex_url new_SafeRequestManager (\<lambda>k. Failure ex_bad_request) (\<lambda>k. 0)
            (ex_get ''https://graphql.anilist.co'')) = Rejected ex_bad_request
   \<and> attempts (snd (request ex_url new_SafeRequestManager (\<lambda>k. Failure ex_bad_request) (\<lambda>k. 0)
            (ex_get ''https://graphql.anilist.co''))) = 1"
proof -
  have a: "(\<lambda>k::nat. Failure ex_bad_request) 0 = Failure ex_bad_request" by simp
  have r: "response ex_bad_request = Some \<lparr>status = 400, headers = Map.empty\<rparr>"
    by (simp add: ex_bad_request_def)
  have s: "400 \<le> status \<lparr>status = 400, headers = Map.empty\<rparr>"
    "status \<lparr>status = 400, headers = Map.empty\<rparr> < 500"
    "status \<lparr>status = 400, headers = Map.empty\<rparr> \<noteq> 429" by simp_all
  have c: "code ex_bad_request \<noteq> Some ''ECONNABORTED''" "code ex_bad_request \<noteq> Some ''ETIMEDOUT''"
    by (simp_all add: ex_bad_request_def)
  from client_error_not_retried [OF a r s c, where M = 5 and rnd = "\<lambda>k. 0"
      and config = "ex_get ''https://graphql.anilist.co''" and d = "''graphql.anilist.co''"
      and cfg = anilist_config and U = ex_url]
  show ?thesis by simp
qed

text \<open>
  Claim C6. With \<^verbatim>\<open>Math.random()\<close> in \<open>[0, 1)\<close> and a base delay that is not negative,
  the backoff delay for retry count \<open>k\<close> is \<open>min (b * 2 ^ k + jitter) m\<close> with the jitter in
  \<open>[0, b * 0.5]\<close>, so it lies between \<open>min (b * 2 ^ k) m\<close> and
  \<open>min (b * 2 ^ k + b * 0.5) m\<close>; for \<open>k = 0\<close> between \<open>min b m\<close> and \<open>min (1.5 * b) m\<close>.
  The loop computes the delay after the failed attempt number \<open>k\<close> from \<open>k\<close> itself,
  before \<open>retryCount\<close> is incremented.
\<close>

theorem backoff_delay_bounds:
  assumes "0 \<le> rnd" and "rnd < 1" and "0 \<le> b"
  shows "calculateBackoffDelay k b m rnd = min (b * 2 ^ k + rnd * b * 0.5) m
       \<and> 0 \<le> rnd * b * 0.5 \<and> rnd * b * 0.5 \<le> b * 0.5
       \<and> min (b * 2 ^ k) m \<le> calculateBackoffDelay k b m rnd
       \<and> calculateBackoffDelay k b m rnd \<le> min (b * 2 ^ k + b * 0.5) m
       \<and> min b m \<le> calculateBackoffDelay 0 b m rnd
       \<and> calculateBackoffDelay 0 b m rnd \<le> min (b + b * 0.5) m
       \<and> (axios k = Failure e \<and> shouldRetry e k M
            \<and> Option.bind (response e) (\<lambda>r. headers r ''retry-after'') = None
          \<longrightarrow> take 3 (snd (retry_loop axios rnds config d cfg M k))
              = [EnforceRateLimit d,
                 Axios (or_default (req_timeout config) (or_default (timeout cfg) 10000)),
                 Delay (calculateBackoffDelay k (or_default (baseDelay cfg) 1000)
                          (or_default (maxDelay cfg) 30000) (rnds k))])"
proof -
  have j0: "0 \<le> rnd * b * 0.5" using assms by simp
  have "rnd * b \<le> 1 * b" using assms by (intro mult_right_mono) simp_all
  then have j1: "rnd * b * 0.5 \<le> b * 0.5" by simp
  have eq: "calculateBackoffDelay k b m rnd = min (b * 2 ^ k + rnd * b * 0.5) m" for k
    by (simp add: calculateBackoffDelay_def Let_def)
  have lo: "min (b * 2 ^ k) m \<le> calculateBackoffDelay k b m rnd" for k
    unfolding eq using j0 by (simp add: min_def)
  have hi: "calculateBackoffDelay k b m rnd \<le> min (b * 2 ^ k + b * 0.5) m" for k
    unfolding eq using j1 by (simp add: min_def)
  have loop: "axios k = Failure e \<and> shouldRetry e k M
            \<and> Option.bind (response e) (\<lambda>r. headers r ''retry-after'') = None
          \<longrightarrow> take 3 (snd (retry_loop axios rnds config d cfg M k))
              = [EnforceRateLimit d,
                 Axios (or_default (req_timeout config) (or_default (timeout cfg) 10000)),
                 Delay (calculateBackoffDelay k (or_default (baseDelay cfg) 1000)
                          (or_default (maxDelay cfg) 30000) (rnds k))]"
    using retry_loop_first_events [of axios k e M rnds config d cfg]
      getRetryDelay_no_header [of e k cfg "rnds k"] by simp
  from lo [of 0] hi [of 0] have "min b m \<le> calculateBackoffDelay 0 b m rnd"
    "calculateBackoffDelay 0 b m rnd \<le> min (b + b * 0.5) m" by simp_all
  with eq [of k] j0 j1 lo [of k] hi [of k] loop show ?thesis by blast
qed

text \<open>
  The theorem at \<open>b = 1000\<close>, \<open>m = 30000\<close>, \<^verbatim>\<open>Math.random() = 0.5\<close> and a first attempt
  that fails without a response: the first retry waits 1250 ms.
\<close>

theorem backoff_delay_bounds_witness:
  "calculateBackoffDelay 0 1000 30000 (1 / 2) = 1250
   \<and> 1000 \<le> calculateBackoffDelay 0 1000 30000 (1 / 2)
   \<and> calculateBackoffDelay 0 1000 30000 (1 / 2) \<le> 1500
   \<and> take 3 (snd (retry_loop (\<lambda>k. Failure ex_network_error) (\<lambda>k. 1 / 2)
              (ex_get ''https://graphql.anilist.co'') ''graphql.anilist.co'' anilist_config 5 0))
       = [EnforceRateLimit ''graphql.anilist.co'', Axios 10000, Delay 1250]"
proof -
  have h: "(0::real) \<le> 1 / 2" "(1::real) / 2 < 1" "(0::real) \<le> 1000" by simp_all
  have f: "(\<lambda>k::nat. Failure ex_network_error) 0 = Failure ex_network_error
           \<and> shouldRetry ex_network_error 0 5
           \<and> Option.bind (response ex_network_error) (\<lambda>r. headers r ''retry-after'') = None"
    by (simp add: shouldRetry_def ex_network_error_def)
  from backoff_delay_bounds [OF h, of 0 30000 "\<lambda>k. Failure ex_network_error" ex_network_error 5
      "\<lambda>k. 1 / 2" "ex_get ''https://graphql.anilist.co''" "''graphql.anilist.co''" anilist_config] f
  show ?thesis
    by (simp add: anilist_config_def or_default_def ex_get_def calculateBackoffDelay_def)
qed

section \<open>Policy resolution\<close>

text \<open>
  Claim C9. On the constructed manager resolution always yields a configuration and a
  limiter. The domain of a URL that parses is its hostname, so two URLs with the same
  hostname resolve to the same policy whatever their scheme, port and path are. A
  configured hostname gets its own configuration; every other hostname gets the
  \<^verbatim>\<open>'default'\<close> configuration and the \<^verbatim>\<open>'default'\<close> limiter, whose concurrency is 2, and
  its requests run the retry loop with the default policy and 3 retries. \<^verbatim>\<open>request\<close>
  never throws the \<^verbatim>\<open>TypeError\<close> of a failed resolution.
\<close>

theorem policy_resolution_total:
  "(\<exists>cfg l. getConfig new_SafeRequestManager (getDomain U u) = Some cfg
          \<and> getLimiter new_SafeRequestManager (getDomain U u) = Some l)
   \<and> (\<forall>urlObj. U u = Some urlObj \<longrightarrow> getDomain U u = hostname urlObj)
   \<and> (\<forall>u' a b. U u = Some a \<and> U u' = Some b \<and> hostname a = hostname b
        \<longrightarrow> getConfig new_SafeRequestManager (getDomain U u)
            = getConfig new_SafeRequestManager (getDomain U u'))
   \<and> (\<forall>d cfg. rateLimitConfig new_SafeRequestManager d = Some cfg
        \<longrightarrow> getConfig new_SafeRequestManager d = Some cfg)
   \<and> (\<forall>d. rateLimitConfig new_SafeRequestManager d = None
        \<longrightarrow> getConfig new_SafeRequestManager d = Some default_config
            \<and> getLimiter new_SafeRequestManager d = Some 4)
   \<and> limit_concurrency (limits new_SafeRequestManager ! 4) = 2
   \<and> concurrency default_config = Some 2 \<and> maxRetries default_config = Some 3
   \<and> fst (request U new_SafeRequestManager axios rnd config) \<noteq> TypeError
   \<and> (rateLimitConfig new_SafeRequestManager (getDomain U (url_of config)) = None
        \<longrightarrow> request U new_SafeRequestManager axios rnd config
            = (fst (retry_loop axios rnd config (getDomain U (url_of config)) default_config 3 0),
               [Acquire 4]
               @ snd (retry_loop axios rnd config (getDomain U (url_of config)) default_config 3 0)
               @ [Release 4]))"
proof -
  have 1: "\<exists>cfg l. getConfig new_SafeRequestManager (getDomain U u) = Some cfg
          \<and> getLimiter new_SafeRequestManager (getDomain U u) = Some l"
    using getConfig_new_total getLimiter_new_total by blast
  have 2: "\<forall>urlObj. U u = Some urlObj \<longrightarrow> getDomain U u = hostname urlObj"
    by (simp add: getDomain_def)
  have 3: "\<forall>u' a b. U u = Some a \<and> U u' = Some b \<and> hostname a = hostname b
        \<longrightarrow> getConfig new_SafeRequestManager (getDomain U u)
            = getConfig new_SafeRequestManager (getDomain U u')"
    by (simp add: getDomain_def)
  have 4: "\<forall>d cfg. rateLimitConfig new_SafeRequestManager d = Some cfg
        \<longrightarrow> getConfig new_SafeRequestManager d = Some cfg"
    by (simp add: getConfig_def)
  have 5: "\<forall>d. rateLimitConfig new_SafeRequestManager d = None
        \<longrightarrow> getConfig new_SafeRequestManager d = Some default_config
            \<and> getLimiter new_SafeRequestManager d = Some 4"
    using getConfig_new_default by blast
  have 6: "limit_concurrency (limits new_SafeRequestManager ! 4) = 2
        \<and> concurrency default_config = Some 2 \<and> maxRetries default_config = Some 3"
    by (simp add: new_limits pLimit_def default_config_def)
  have 7: "fst (request U new_SafeRequestManager axios rnd config) \<noteq> TypeError"
    using request_new [of U config axios rnd] retry_loop_not_TypeError by auto
  have 8: "rateLimitConfig new_SafeRequestManager (getDomain U (url_of config)) = None
        \<longrightarrow> request U new_SafeRequestManager axios rnd config
            = (fst (retry_loop axios rnd config (getDomain U (url_of config)) default_config 3 0),
               [Acquire 4]
               @ snd (retry_loop axios rnd config (getDomain U (url_of config)) default_config 3 0)
               @ [Release 4])"
    using getConfig_new_default request_new_default by blast
  from 1 2 3 4 5 6 7 8 show ?thesis by blast
qed

text \<open>
  The theorem at an unconfigured hostname with a port and a path, and at \<^verbatim>\<open>localhost\<close>.
\<close>

theorem policy_resolution_total_witness:
  "ex_url ''http://b.example:8080/y''
     = Some \<lparr>protocol = ''http:'', hostname = ''b.example'', port = ''8080'', pathname = ''/y''\<rparr>
   \<and> getDomain ex_url ''http://b.example:8080/y'' = ''b.example''
   \<and> rateLimitConfig new_SafeRequestManager ''b.example'' = None
   \<and> getConfig new_SafeRequestManager ''b.example'' = Some default_config
   \<and> getLimiter new_SafeRequestManager ''b.example'' = Some 4
   \<and> rateLimitConfig new_SafeRequestManager ''localhost'' = Some localhost_config
   \<and> getConfig new_SafeRequestManager ''localhost'' = Some localhost_config
   \<and> getConfig new_SafeRequestManager (getDomain ex_url ''https://a.example/x'')
       = getConfig new_SafeRequestManager (getDomain ex_url ''http://a.example:8080/z?q=1'')
   \<and> request ex_url new_SafeRequestManager (\<lambda>k. Success ex_ok) (\<lambda>k. 0)
         (ex_get ''http://b.example:8080/y'')
       = (Resolved ex_ok, [Acquire 4, EnforceRateLimit ''b.example'', Axios 10000, Release 4])"
proof -
  have p: "ex_url ''http://b.example:8080/y''
     = Some \<lparr>protocol = ''http:'', hostname = ''b.example'', port = ''8080'', pathname = ''/y''\<rparr>"
    by (simp add: ex_url_def)
  have n: "rateLimitConfig new_SafeRequestManager ''b.example'' = None"
    and l: "rateLimitConfig new_SafeRequestManager ''localhost'' = Some localhost_config"
    by (simp_all add: new_rateLimitConfig)
  note main = policy_resolution_total [of ex_url "''http://b.example:8080/y''"
      "\<lambda>k. Success ex_ok" "\<lambda>k. 0" "ex_get ''http://b.example:8080/y''"]
  from main p have d: "getDomain ex_url ''http://b.example:8080/y'' = ''b.example''" by simp
  from main n have c: "getConfig new_SafeRequestManager ''b.example'' = Some default_config
      \<and> getLimiter new_SafeRequestManager ''b.example'' = Some 4" by blast
  from main l have c': "getConfig new_SafeRequestManager ''localhost'' = Some localhost_config"
    by blast
  have dd: "getDomain ex_url (url_of (ex_get ''http://b.example:8080/y'')) = ''b.example''"
    using d by (simp add: url_of_def ex_get_def)
  from main n dd
  have r: "request ex_url new_SafeRequestManager (\<lambda>k. Success ex_ok) (\<lambda>k. 0)
         (ex_get ''http://b.example:8080/y'')
       = (fst (retry_loop (\<lambda>k. Success ex_ok) (\<lambda>k. 0) (ex_get ''http://b.example:8080/y'')
                 ''b.example'' default_config 3 0),
          [Acquire 4]
          @ snd (retry_loop (\<lambda>k. Success ex_ok) (\<lambda>k. 0) (ex_get ''http://b.example:8080/y'')
                   ''b.example'' default_config 3 0)
          @ [Release 4])"
    by simp
  have r': "request ex_url new_SafeRequestManager (\<lambda>k. Success ex_ok) (\<lambda>k. 0)
         (ex_get ''http://b.example:8080/y'')
       = (Resolved ex_ok, [Acquire 4, EnforceRateLimit ''b.example'', Axios 10000, Release 4])"
    unfolding r by (simp add: retry_loop.simps ex_get_def default_config_def or_default_def)
  have a: "ex_url ''https://a.example/x''
       = Some \<lparr>protocol = ''https:'', hostname = ''a.example'', port = [], pathname = ''/x''\<rparr>"
    and a': "ex_url ''http://a.example:8080/z?q=1''
       = Some \<lparr>protocol = ''http:'', hostname = ''a.example'', port = ''8080'', pathname = ''/z''\<rparr>"
    by (simp_all add: ex_url_def)
  from policy_resolution_total [of ex_url "''https://a.example/x''"
      "\<lambda>k. Success ex_ok" "\<lambda>k. 0" "ex_get ''https://a.example/x''"]
  have same: "\<And>u' a b. ex_url ''https://a.example/x'' = Some a \<and> ex_url u' = Some b
        \<and> hostname a = hostname b
      \<Longrightarrow> getConfig new_SafeRequestManager (getDomain ex_url ''https://a.example/x'')
        = getConfig new_SafeRequestManager (getDomain ex_url u')"
    by blast
  have e: "getConfig new_SafeRequestManager (getDomain ex_url ''https://a.example/x'')
       = getConfig new_SafeRequestManager (getDomain ex_url ''http://a.example:8080/z?q=1'')"
    by (rule same [of "\<lparr>protocol = ''https:'', hostname = ''a.example'', port = [], pathname = ''/x''\<rparr>"
          _ "\<lparr>protocol = ''http:'', hostname = ''a.example'', port = ''8080'', pathname = ''/z''\<rparr>"])
       (simp add: a a')
  from p d n c l c' e r' show ?thesis by blast
qed

text \<open>
  Claim C10. When the URL parser throws on \<^verbatim>\<open>config.url || ''\<close> (the URL is not
  parseable, or it is absent and the empty string is parsed), the domain is the literal
  \<^verbatim>\<open>'default'\<close>, and the request runs the retry loop under the limiter, the retry count
  and the delay bounds of the default policy instead of throwing.
\<close>

theorem unparseable_url_uses_default:
  assumes "U (url_of config) = None"
  shows "getDomain U (url_of config) = ''default''
       \<and> (url config = None \<longrightarrow> url_of config = [])
       \<and> getConfig new_SafeRequestManager (getDomain U (url_of config)) = Some default_config
       \<and> getLimiter new_SafeRequestManager (getDomain U (url_of config)) = Some 4
       \<and> limit_concurrency (limits new_SafeRequestManager ! 4) = 2
       \<and> or_default (maxRetries default_config) 3 = 3
       \<and> or_default (baseDelay default_config) 1000 = 1000
       \<and> or_default (maxDelay default_config) 30000 = 20000
       \<and> fst (request U new_SafeRequestManager axios rnd config) \<noteq> TypeError
       \<and> request U new_SafeRequestManager axios rnd config
           = (fst (retry_loop axios rnd config ''default'' default_config 3 0),
              [Acquire 4] @ snd (retry_loop axios rnd config ''default'' default_config 3 0)
              @ [Release 4])"
proof -
  have d: "getDomain U (url_of config) = ''default''" using assms by (simp add: getDomain_def)
  have u: "url config = None \<longrightarrow> url_of config = []" by (simp add: url_of_def)
  have c: "getConfig new_SafeRequestManager (getDomain U (url_of config)) = Some default_config"
    "getLimiter new_SafeRequestManager (getDomain U (url_of config)) = Some 4"
    unfolding d using getConfig_new_default_key by simp_all
  have k: "limit_concurrency (limits new_SafeRequestManager ! 4) = 2
       \<and> or_default (maxRetries default_config) 3 = 3
       \<and> or_default (baseDelay default_config) 1000 = 1000
       \<and> or_default (maxDelay default_config) 30000 = 20000"
    by (simp add: new_limits pLimit_def default_config_def or_default_def)
  have r: "request U new_SafeRequestManager axios rnd config
           = (fst (retry_loop axios rnd config ''default'' default_config 3 0),
              [Acquire 4] @ snd (retry_loop axios rnd config ''default'' default_config 3 0)
              @ [Release 4])"
    using request_new_default [OF c, of axios rnd] unfolding d .
  have "fst (request U new_SafeRequestManager axios rnd config) \<noteq> TypeError"
    unfolding r using retry_loop_not_TypeError by simp
  with d u c k r show ?thesis by blast
qed

text \<open>
  The theorem at a request without a URL and at a request whose URL does not parse.
\<close>

theorem unparseable_url_uses_default_witness:
  "ex_url (url_of \<lparr>url = None, req_timeout = None\<rparr>) = None
   \<and> getDomain ex_url (url_of \<lparr>url = None, req_timeout = None\<rparr>) = ''default''
   \<and> ex_url (url_of (ex_get ''not a url'')) = None
   \<and> getDomain ex_url (url_of (ex_get ''not a url'')) = ''default''
   \<and> getConfig new_SafeRequestManager (getDomain ex_url (url_of (ex_get ''not a url'')))
       = Some default_config"
proof -
  have a: "ex_url (url_of \<lparr>url = None, req_timeout = None\<rparr>) = None"
    and b: "ex_url (url_of (ex_get ''not a url'')) = None"
    by (simp_all add: url_of_def ex_url_def ex_get_def)
  from unparseable_url_uses_default [where U = ex_url
        and config = "\<lparr>url = None, req_timeout = None\<rparr>", OF a]
    unparseable_url_uses_default [where U = ex_url and config = "ex_get ''not a url''", OF b] a b
  show ?thesis by blast
qed

section \<open>The scheduler\<close>

subsection \<open>Counting the occupied slots\<close>

lemma filter_update_count:
  "i < length xs \<Longrightarrow>
   length (filter P (xs[i := y])) + of_bool (P (xs ! i)) = length (filter P xs) + of_bool (P y)"
proof (induction xs arbitrary: i)
  case Nil
  then show ?case by simp
next
  case (Cons x xs)
  show ?case
  proof (cases i)
    case 0
    then show ?thesis by simp
  next
    case (Suc j)
    with Cons.prems have "j < length xs" by simp
    from Cons.IH [OF this] show ?thesis using Suc by simp
  qed
qed

lemma filter_length_mono:
  "(\<And>x. x \<in> set xs \<Longrightarrow> P x \<Longrightarrow> Q x) \<Longrightarrow> length (filter P xs) \<le> length (filter Q xs)"
proof (induction xs)
  case Nil
  then show ?case by simp
next
  case (Cons x xs)
  then have "length (filter P xs) \<le> length (filter Q xs)" by simp
  moreover have "P x \<Longrightarrow> Q x" using Cons.prems by simp
  ultimately show ?case by auto
qed

lemma slots_used_update:
  assumes "i < length (tasks s)" and "tasks s' = (tasks s)[i := t']"
    and "t_limiter t' = t_limiter (tasks s ! i)"
  shows "slots_used s' l + of_bool (t_limiter (tasks s ! i) = l \<and> running (tasks s ! i))
       = slots_used s l + of_bool (t_limiter (tasks s ! i) = l \<and> running t')"
  using filter_update_count [OF assms(1), of "\<lambda>t. t_limiter t = l \<and> running t" t'] assms(2,3)
  by (simp add: slots_used_def)

lemma slots_used_same:
  assumes "i < length (tasks s)" and "tasks s' = (tasks s)[i := t']"
    and "t_limiter t' = t_limiter (tasks s ! i)" and "running t' = running (tasks s ! i)"
  shows "slots_used s' l = slots_used s l"
  using slots_used_update [OF assms(1,2,3), of l] assms(4) by simp

lemma slots_used_pos:
  assumes "i < length (tasks s)" and "running (tasks s ! i)"
  shows "0 < slots_used s (t_limiter (tasks s ! i))"
proof -
  have "tasks s ! i \<in> set (filter (\<lambda>t. t_limiter t = t_limiter (tasks s ! i) \<and> running t) (tasks s))"
    using assms by simp
  then show ?thesis unfolding slots_used_def by (metis length_pos_if_in_set)
qed

lemma running_phase [simp]:
  "running (t\<lparr>t_phase := Spacing w\<rparr>)"
  "running (t\<lparr>t_phase := InFlight\<rparr>)"
  "running (t\<lparr>t_phase := Backoff w\<rparr>)"
  "\<not> running (t\<lparr>t_phase := Queued\<rparr>)"
  "\<not> running (t\<lparr>t_phase := Settled r\<rparr>)"
  "running (t\<lparr>t_retryCount := n\<rparr>) = running t"
  by (simp_all add: running_def)

lemma queued_not_running: "is_queued t \<Longrightarrow> \<not> running t"
  by (auto simp: is_queued_def running_def split: phase.splits)

lemma in_flight_running: "in_flight t \<Longrightarrow> running t"
  by (auto simp: in_flight_def running_def split: phase.splits)

subsection \<open>What the parts of a step change\<close>

lemma set_phase_simps [simp]:
  "manager (set_phase i p s) = manager s"
  "clock (set_phase i p s) = clock s"
  "calls (set_phase i p s) = calls s"
  "tasks (set_phase i p s) = (tasks s)[i := (tasks s ! i)\<lparr>t_phase := p\<rparr>]"
  by (simp_all add: set_phase_def)

lemma enforceRateLimit_set_simps [simp]:
  "limiters (enforceRateLimit_set m d t) = limiters m"
  "rateLimitConfig (enforceRateLimit_set m d t) = rateLimitConfig m"
  "limits (enforceRateLimit_set m d t) = limits m"
  "lastRequestTime (enforceRateLimit_set m d t) = (lastRequestTime m)(d \<mapsto> t)"
  by (simp_all add: enforceRateLimit_set_def)

lemma call_axios_simps [simp]:
  "manager (call_axios i s) = enforceRateLimit_set (manager s) (t_domain (tasks s ! i)) (clock s)"
  "clock (call_axios i s) = clock s"
  "calls (call_axios i s) = calls s @ [(i, t_domain (tasks s ! i), clock s)]"
  "tasks (call_axios i s) = (tasks s)[i := (tasks s ! i)\<lparr>t_phase := InFlight\<rparr>]"
  by (simp_all add: call_axios_def Let_def)

lemma limit_run_simps [simp]:
  "limiters (limit_run l m) = limiters m"
  "rateLimitConfig (limit_run l m) = rateLimitConfig m"
  "lastRequestTime (limit_run l m) = lastRequestTime m"
  "limits (limit_run l m) = (limits m)[l := (limits m ! l)\<lparr>activeCount := activeCount (limits m ! l) + 1\<rparr>]"
  by (simp_all add: limit_run_def)

lemma limit_next_simps [simp]:
  "limiters (limit_next l m) = limiters m"
  "rateLimitConfig (limit_next l m) = rateLimitConfig m"
  "lastRequestTime (limit_next l m) = lastRequestTime m"
  "limits (limit_next l m) = (limits m)[l := (limits m ! l)\<lparr>activeCount := activeCount (limits m ! l) - 1\<rparr>]"
  by (simp_all add: limit_next_def)

lemma settle_simps [simp]:
  "manager (settle i r s) = limit_next (t_limiter (tasks s ! i)) (manager s)"
  "clock (settle i r s) = clock s"
  "calls (settle i r s) = calls s"
  "tasks (settle i r s) = (tasks s)[i := (tasks s ! i)\<lparr>t_phase := Settled r\<rparr>]"
  by (simp_all add: settle_def)

lemma start_attempt_cases:
  obtains due where "start_attempt i s = set_phase i (Spacing due) s"
  | "start_attempt i s = call_axios i s"
  by (cases "enforceRateLimit_waitTime (manager s) (t_domain (tasks s ! i)) (clock s)")
     (simp_all add: start_attempt_def)

lemma start_attempt_manager [simp]:
  "limiters (manager (start_attempt i s)) = limiters (manager s)"
  "rateLimitConfig (manager (start_attempt i s)) = rateLimitConfig (manager s)"
  "limits (manager (start_attempt i s)) = limits (manager s)"
  by (cases rule: start_attempt_cases [of i s]; simp)+

lemma start_attempt_tasks:
  "\<exists>p. (p = InFlight \<or> (\<exists>due. p = Spacing due))
     \<and> tasks (start_attempt i s) = (tasks s)[i := (tasks s ! i)\<lparr>t_phase := p\<rparr>]"
  by (cases rule: start_attempt_cases [of i s]) auto

lemma same_registry_limits_update:
  assumes "same_registry m0 m" and "limiters m' = limiters m"
    and "rateLimitConfig m' = rateLimitConfig m"
    and "limits m' = (limits m)[l := (limits m ! l)\<lparr>activeCount := a\<rparr>]"
  shows "same_registry m0 m'"
proof -
  have "map limit_concurrency ((limits m)[l := (limits m ! l)\<lparr>activeCount := a\<rparr>])
        = map limit_concurrency (limits m)"
    by (cases "l < length (limits m)") (auto simp: list_eq_iff_nth_eq nth_list_update)
  with assms show ?thesis by (simp add: same_registry_def)
qed

lemma same_registry_same_limits:
  assumes "same_registry m0 m" and "limiters m' = limiters m"
    and "rateLimitConfig m' = rateLimitConfig m" and "limits m' = limits m"
  shows "same_registry m0 m'"
  using assms by (simp add: same_registry_def)

lemma same_registry_concurrency:
  assumes "same_registry m0 m" and "l < length (limits m)"
  shows "limit_concurrency (limits m ! l) = limit_concurrency (limits m0 ! l)"
proof -
  from assms have eq: "map limit_concurrency (limits m) = map limit_concurrency (limits m0)"
    and l0: "l < length (limits m0)"
    by (simp_all add: same_registry_def)
  have "limit_concurrency (limits m ! l) = map limit_concurrency (limits m) ! l"
    using assms(2) by simp
  also have "\<dots> = map limit_concurrency (limits m0) ! l" by (simp only: eq)
  also have "\<dots> = limit_concurrency (limits m0 ! l)" using l0 by simp
  finally show ?thesis .
qed

lemma getLimiter_same: "limiters m = limiters m0 \<Longrightarrow> getLimiter m d = getLimiter m0 d"
  unfolding getLimiter_def by (erule ssubst) (rule refl)

lemma getConfig_same: "rateLimitConfig m = rateLimitConfig m0 \<Longrightarrow> getConfig m d = getConfig m0 d"
  unfolding getConfig_def by (erule ssubst) (rule refl)

lemma task_step_static:
  assumes ts: "task_step i t' s s'"
    and st: "\<forall>t \<in> set (tasks s). getLimiter m0 (t_domain t) = Some (t_limiter t)
                  \<and> t_rateLimitCfg t = getConfig m0 (t_domain t)"
  shows "\<forall>t \<in> set (tasks s'). getLimiter m0 (t_domain t) = Some (t_limiter t)
                  \<and> t_rateLimitCfg t = getConfig m0 (t_domain t)"
proof
  fix t assume t: "t \<in> set (tasks s')"
  from ts have i: "i < length (tasks s)"
    and t': "tasks s' = (tasks s)[i := t']" "t_limiter t' = t_limiter (tasks s ! i)"
      "t_domain t' = t_domain (tasks s ! i)" "t_rateLimitCfg t' = t_rateLimitCfg (tasks s ! i)"
    by (auto simp: task_step_def)
  from t t'(1) have "t = t' \<or> t \<in> set (tasks s)"
    using set_update_subset_insert [of "tasks s" i t'] by auto
  moreover have "tasks s ! i \<in> set (tasks s)" using i by simp
  ultimately show "getLimiter m0 (t_domain t) = Some (t_limiter t)
                  \<and> t_rateLimitCfg t = getConfig m0 (t_domain t)"
    using st t'(2,3,4) by auto
qed

subsection \<open>The invariant is kept by every step\<close>

lemma sched_invI:
  assumes "same_registry m0 (manager s)"
    and "\<forall>t \<in> set (tasks s). getLimiter m0 (t_domain t) = Some (t_limiter t)
                  \<and> t_rateLimitCfg t = getConfig m0 (t_domain t)"
    and "\<And>k. k < length (limits (manager s)) \<Longrightarrow>
           activeCount (limits (manager s) ! k) = slots_used s k
         \<and> activeCount (limits (manager s) ! k) \<le> limit_concurrency (limits (manager s) ! k)"
  shows "sched_inv m0 s"
  unfolding sched_inv_def using assms by blast

lemma sched_inv_registry: "sched_inv m0 s \<Longrightarrow> same_registry m0 (manager s)"
  unfolding sched_inv_def by blast

lemma sched_inv_static:
  "sched_inv m0 s \<Longrightarrow> \<forall>t \<in> set (tasks s). getLimiter m0 (t_domain t) = Some (t_limiter t)
                  \<and> t_rateLimitCfg t = getConfig m0 (t_domain t)"
  unfolding sched_inv_def by blast

lemma sched_inv_count:
  "sched_inv m0 s \<Longrightarrow> k < length (limits (manager s)) \<Longrightarrow>
     activeCount (limits (manager s) ! k) = slots_used s k"
  unfolding sched_inv_def by blast

lemma sched_inv_bound:
  "sched_inv m0 s \<Longrightarrow> k < length (limits (manager s)) \<Longrightarrow>
     activeCount (limits (manager s) ! k) \<le> limit_concurrency (limits (manager s) ! k)"
  unfolding sched_inv_def by blast

lemma sched_inv_cong:
  "manager s' = manager s \<Longrightarrow> tasks s' = tasks s \<Longrightarrow> sched_inv m0 s' = sched_inv m0 s"
  by (simp add: sched_inv_def slots_used_def)

lemma inv_keep:
  assumes inv: "sched_inv m0 s" and ts: "task_step i t' s s'"
    and lim: "limits (manager s') = limits (manager s)"
    and run: "running t' = running (tasks s ! i)"
  shows "sched_inv m0 s'"
proof -
  from ts have i: "i < length (tasks s)" and up: "tasks s' = (tasks s)[i := t']"
    and l: "t_limiter t' = t_limiter (tasks s ! i)"
    and m: "limiters (manager s') = limiters (manager s)"
           "rateLimitConfig (manager s') = rateLimitConfig (manager s)"
    by (simp_all add: task_step_def)
  have g: "same_registry m0 (manager s')"
    by (rule same_registry_same_limits [OF sched_inv_registry [OF inv] m lim])
  have st: "\<forall>t \<in> set (tasks s'). getLimiter m0 (t_domain t) = Some (t_limiter t)
                  \<and> t_rateLimitCfg t = getConfig m0 (t_domain t)"
    by (rule task_step_static [OF ts sched_inv_static [OF inv]])
  have cnt: "slots_used s' k = slots_used s k" for k
    by (rule slots_used_same [OF i up l run])
  show ?thesis
  proof (rule sched_invI [OF g st])
    fix k assume "k < length (limits (manager s'))"
    then have k: "k < length (limits (manager s))" by (simp only: lim)
    show "activeCount (limits (manager s') ! k) = slots_used s' k
         \<and> activeCount (limits (manager s') ! k) \<le> limit_concurrency (limits (manager s') ! k)"
      using sched_inv_count [OF inv k] sched_inv_bound [OF inv k] cnt [of k]
      by (simp only: lim)
  qed
qed

lemma inv_acquire:
  assumes inv: "sched_inv m0 s" and ts: "task_step i t' s s'"
    and run: "\<not> running (tasks s ! i)" "running t'"
    and free: "activeCount (limits (manager s) ! t_limiter (tasks s ! i))
                < limit_concurrency (limits (manager s) ! t_limiter (tasks s ! i))"
    and lim: "limits (manager s') = (limits (manager s))[t_limiter (tasks s ! i) :=
                (limits (manager s) ! t_limiter (tasks s ! i))
                  \<lparr>activeCount := activeCount (limits (manager s) ! t_limiter (tasks s ! i)) + 1\<rparr>]"
  shows "sched_inv m0 s'"
proof -
  from ts have i: "i < length (tasks s)" and up: "tasks s' = (tasks s)[i := t']"
    and l: "t_limiter t' = t_limiter (tasks s ! i)"
    and m: "limiters (manager s') = limiters (manager s)"
           "rateLimitConfig (manager s') = rateLimitConfig (manager s)"
    by (simp_all add: task_step_def)
  have g: "same_registry m0 (manager s')"
    by (rule same_registry_limits_update [OF sched_inv_registry [OF inv] m lim])
  have st: "\<forall>t \<in> set (tasks s'). getLimiter m0 (t_domain t) = Some (t_limiter t)
                  \<and> t_rateLimitCfg t = getConfig m0 (t_domain t)"
    by (rule task_step_static [OF ts sched_inv_static [OF inv]])
  have cnt: "slots_used s' k = slots_used s k + of_bool (t_limiter (tasks s ! i) = k)" for k
    using slots_used_update [OF i up l, of k] run by simp
  have "activeCount (limits (manager s') ! k) = slots_used s' k
       \<and> activeCount (limits (manager s') ! k) \<le> limit_concurrency (limits (manager s') ! k)"
    if k: "k < length (limits (manager s'))" for k
  proof -
    from k lim have k': "k < length (limits (manager s))" by simp
    have old: "activeCount (limits (manager s) ! k) = slots_used s k"
      "activeCount (limits (manager s) ! k) \<le> limit_concurrency (limits (manager s) ! k)"
      by (rule sched_inv_count [OF inv k'], rule sched_inv_bound [OF inv k'])
    show ?thesis
    proof (cases "t_limiter (tasks s ! i) = k")
      case True
      then show ?thesis using k' old free lim cnt [of k] by simp
    next
      case False
      then show ?thesis using k' old lim cnt [of k] by simp
    qed
  qed
  then show ?thesis by (rule sched_invI [OF g st])
qed

lemma inv_release:
  assumes inv: "sched_inv m0 s" and ts: "task_step i t' s s'"
    and run: "running (tasks s ! i)" "\<not> running t'"
    and lim: "limits (manager s') = (limits (manager s))[t_limiter (tasks s ! i) :=
                (limits (manager s) ! t_limiter (tasks s ! i))
                  \<lparr>activeCount := activeCount (limits (manager s) ! t_limiter (tasks s ! i)) - 1\<rparr>]"
  shows "sched_inv m0 s'"
proof -
  from ts have i: "i < length (tasks s)" and up: "tasks s' = (tasks s)[i := t']"
    and l: "t_limiter t' = t_limiter (tasks s ! i)"
    and m: "limiters (manager s') = limiters (manager s)"
           "rateLimitConfig (manager s') = rateLimitConfig (manager s)"
    by (simp_all add: task_step_def)
  have g: "same_registry m0 (manager s')"
    by (rule same_registry_limits_update [OF sched_inv_registry [OF inv] m lim])
  have st: "\<forall>t \<in> set (tasks s'). getLimiter m0 (t_domain t) = Some (t_limiter t)
                  \<and> t_rateLimitCfg t = getConfig m0 (t_domain t)"
    by (rule task_step_static [OF ts sched_inv_static [OF inv]])
  have cnt: "slots_used s' k + of_bool (t_limiter (tasks s ! i) = k) = slots_used s k" for k
    using slots_used_update [OF i up l, of k] run by simp
  have pos: "0 < slots_used s (t_limiter (tasks s ! i))"
    by (rule slots_used_pos [OF i run(1)])
  have "activeCount (limits (manager s') ! k) = slots_used s' k
       \<and> activeCount (limits (manager s') ! k) \<le> limit_concurrency (limits (manager s') ! k)"
    if k: "k < length (limits (manager s'))" for k
  proof -
    from k lim have k': "k < length (limits (manager s))" by simp
    have old: "activeCount (limits (manager s) ! k) = slots_used s k"
      "activeCount (limits (manager s) ! k) \<le> limit_concurrency (limits (manager s) ! k)"
      by (rule sched_inv_count [OF inv k'], rule sched_inv_bound [OF inv k'])
    show ?thesis
    proof (cases "t_limiter (tasks s ! i) = k")
      case True
      then show ?thesis using k' old pos lim cnt [of k] by (simp, arith)
    next
      case False
      then show ?thesis using k' old lim cnt [of k] by simp
    qed
  qed
  then show ?thesis by (rule sched_invI [OF g st])
qed

lemma inv_request:
  assumes inv: "sched_inv m0 s" and st: "step U s (Request config) = Some s'"
  shows "sched_inv m0 s'"
proof (cases "getLimiter (manager s) (getDomain U (url_of config))")
  case None
  with st have "s' = s" by (simp add: Let_def)
  with inv show ?thesis by simp
next
  case (Some limiter)
  define t where "t = \<lparr>t_config = config, t_domain = getDomain U (url_of config),
     t_rateLimitCfg = getConfig (manager s) (getDomain U (url_of config)), t_limiter = limiter,
     t_retryCount = 0, t_phase = Queued\<rparr>"
  from st Some have s': "s' = s\<lparr>tasks := tasks s @ [t]\<rparr>" by (simp add: Let_def t_def)
  have g: "same_registry m0 (manager s)" by (rule sched_inv_registry [OF inv])
  then have eqs: "limiters (manager s) = limiters m0" "rateLimitConfig (manager s) = rateLimitConfig m0"
    by (simp_all add: same_registry_def)
  have tst: "getLimiter m0 (t_domain t) = Some (t_limiter t) \<and> t_rateLimitCfg t = getConfig m0 (t_domain t)"
    using Some getLimiter_same [OF eqs(1)] getConfig_same [OF eqs(2)] by (simp add: t_def)
  have nr: "\<not> running t" by (simp add: t_def running_def)
  show ?thesis
  proof (rule sched_invI)
    show "same_registry m0 (manager s')" using g s' by simp
    show "\<forall>t \<in> set (tasks s'). getLimiter m0 (t_domain t) = Some (t_limiter t)
                  \<and> t_rateLimitCfg t = getConfig m0 (t_domain t)"
      using sched_inv_static [OF inv] tst s' by auto
  next
    fix k assume "k < length (limits (manager s'))"
    then have k: "k < length (limits (manager s))" using s' by simp
    have "slots_used s' k = slots_used s k" using nr s' by (simp add: slots_used_def)
    then show "activeCount (limits (manager s') ! k) = slots_used s' k
         \<and> activeCount (limits (manager s') ! k) \<le> limit_concurrency (limits (manager s') ! k)"
      using sched_inv_count [OF inv k] sched_inv_bound [OF inv k] s' by simp
  qed
qed

lemma inv_start:
  assumes inv: "sched_inv m0 s" and st: "step U s (Start i) = Some s'"
  shows "sched_inv m0 s'"
proof -
  let ?t = "tasks s ! i"
  from st have i: "i < length (tasks s)" and q: "is_queued ?t"
    and free: "activeCount (limits (manager s) ! t_limiter ?t)
                < limit_concurrency (limits (manager s) ! t_limiter ?t)"
    by (auto split: if_splits)
  show ?thesis
  proof (cases "t_rateLimitCfg ?t")
    case None
    with st i q have s': "s' = set_phase i (Settled TypeError) s" by (auto split: if_splits)
    have "task_step i (?t\<lparr>t_phase := Settled TypeError\<rparr>) s s'"
      using i s' by (simp add: task_step_def)
    from inv_keep [OF inv this] s' queued_not_running [OF q] show ?thesis by simp
  next
    case (Some c)
    define s1 where "s1 = s\<lparr>manager := limit_run (t_limiter ?t) (manager s)\<rparr>"
    from st i q Some have s': "s' = start_attempt i s1" by (auto simp: s1_def split: if_splits)
    obtain p where p: "p = InFlight \<or> (\<exists>due. p = Spacing due)"
      and tk: "tasks s' = (tasks s1)[i := (tasks s1 ! i)\<lparr>t_phase := p\<rparr>]"
      using start_attempt_tasks [of i s1] s' by auto
    have ts: "task_step i (?t\<lparr>t_phase := p\<rparr>) s s'"
      using i tk s' by (simp add: task_step_def s1_def)
    have run: "running (?t\<lparr>t_phase := p\<rparr>)" using p by auto
    have lim: "limits (manager s') = (limits (manager s))[t_limiter ?t :=
                (limits (manager s) ! t_limiter ?t)
                  \<lparr>activeCount := activeCount (limits (manager s) ! t_limiter ?t) + 1\<rparr>]"
      using s' by (simp add: s1_def)
    show ?thesis
      by (rule inv_acquire [OF inv ts queued_not_running [OF q] run free lim])
  qed
qed

lemma inv_timer:
  assumes inv: "sched_inv m0 s" and st: "step U s (Timer i) = Some s'"
  shows "sched_inv m0 s'"
proof -
  let ?t = "tasks s ! i"
  from st have i: "i < length (tasks s)" by (auto split: if_splits)
  from st i consider
    (spacing) due where "t_phase ?t = Spacing due" "s' = call_axios i s"
  | (backoff) due where "t_phase ?t = Backoff due"
      "s' = start_attempt i (s\<lparr>tasks := (tasks s)[i := ?t\<lparr>t_retryCount := Suc (t_retryCount ?t)\<rparr>]\<rparr>)"
    by (auto split: if_splits phase.splits)
  then show ?thesis
  proof cases
    case spacing
    have ts: "task_step i (?t\<lparr>t_phase := InFlight\<rparr>) s s'"
      using i spacing by (simp add: task_step_def)
    have "running ?t" using spacing by (simp add: running_def)
    with inv_keep [OF inv ts] spacing show ?thesis by simp
  next
    case backoff
    define s1 where "s1 = s\<lparr>tasks := (tasks s)[i := ?t\<lparr>t_retryCount := Suc (t_retryCount ?t)\<rparr>]\<rparr>"
    obtain p where p: "p = InFlight \<or> (\<exists>due. p = Spacing due)"
      and tk: "tasks s' = (tasks s1)[i := (tasks s1 ! i)\<lparr>t_phase := p\<rparr>]"
      using start_attempt_tasks [of i s1] backoff by (auto simp: s1_def)
    let ?t' = "?t\<lparr>t_retryCount := Suc (t_retryCount ?t), t_phase := p\<rparr>"
    have ts: "task_step i ?t' s s'"
      using i tk backoff by (simp add: task_step_def s1_def)
    have run: "running ?t' = running ?t" using p backoff by (auto simp: running_def)
    have lim: "limits (manager s') = limits (manager s)" using backoff by simp
    show ?thesis by (rule inv_keep [OF inv ts lim run])
  qed
qed

lemma inv_respond:
  assumes inv: "sched_inv m0 s" and st: "step U s (Respond i out rnd) = Some s'"
  shows "sched_inv m0 s'"
proof -
  let ?t = "tasks s ! i"
  from st have i: "i < length (tasks s)" and fl: "in_flight ?t" by (auto split: if_splits)
  from st i fl consider
    (settled) r where "s' = settle i r s"
  | (backoff) due where "s' = set_phase i (Backoff due) s"
    by (auto split: if_splits option.splits outcome.splits)
  then show ?thesis
  proof cases
    case settled
    have ts: "task_step i (?t\<lparr>t_phase := Settled r\<rparr>) s s'"
      using i settled by (simp add: task_step_def)
    have lim: "limits (manager s') = (limits (manager s))[t_limiter ?t :=
                (limits (manager s) ! t_limiter ?t)
                  \<lparr>activeCount := activeCount (limits (manager s) ! t_limiter ?t) - 1\<rparr>]"
      using settled by simp
    have nr: "\<not> running (?t\<lparr>t_phase := Settled r\<rparr>)" by simp
    show ?thesis by (rule inv_release [OF inv ts in_flight_running [OF fl] nr lim])
  next
    case backoff
    have ts: "task_step i (?t\<lparr>t_phase := Backoff due\<rparr>) s s'"
      using i backoff by (simp add: task_step_def)
    from inv_keep [OF inv ts] backoff in_flight_running [OF fl] show ?thesis by simp
  qed
qed

lemma inv_step:
  assumes inv: "sched_inv m0 s" and st: "step U s a = Some s'"
  shows "sched_inv m0 s'"
proof (cases a)
  case (Request config)
  show ?thesis by (rule inv_request [OF inv st [unfolded Request]])
next
  case (Start i)
  show ?thesis by (rule inv_start [OF inv st [unfolded Start]])
next
  case (Timer i)
  show ?thesis by (rule inv_timer [OF inv st [unfolded Timer]])
next
  case (Respond i out rnd)
  show ?thesis by (rule inv_respond [OF inv st [unfolded Respond]])
next
  case (Tick dt)
  have "step U s (Tick dt) = Some s'" by (rule st [unfolded Tick])
  then have s': "s' = s\<lparr>clock := clock s + dt\<rparr>"
    by (cases "0 \<le> dt") simp_all
  have "sched_inv m0 s' = sched_inv m0 s" by (rule sched_inv_cong) (simp_all add: s')
  with inv show ?thesis by simp
qed

lemma inv_run:
  "sched_inv m0 s \<Longrightarrow> run U s as = Some s' \<Longrightarrow> sched_inv m0 s'"
proof (induction as arbitrary: s)
  case Nil
  then show ?case by simp
next
  case (Cons a as)
  then obtain s1 where s1: "step U s a = Some s1" "run U s1 as = Some s'"
    by (auto split: option.splits)
  from Cons.IH [OF inv_step [OF Cons.prems(1) s1(1)] s1(2)] show ?case .
qed

lemma run_append:
  "run U s (as @ bs) = (case run U s as of None \<Rightarrow> None | Some s' \<Rightarrow> run U s' bs)"
  by (induction as arbitrary: s) (simp_all split: option.splits)

subsection \<open>The last request time is the time of the last call\<close>

lemma last_call_snoc: "last_call (cs @ [(i, d, t)]) = (last_call cs)(d \<mapsto> t)"
  by (simp add: last_call_def)

lemma last_call_Nil: "last_call [] = Map.empty"
  by (simp add: last_call_def)

lemma dom_last_call: "dom (last_call cs) = set (map (fst \<circ> snd) cs)"
proof (induction cs rule: rev_induct)
  case Nil
  then show ?case by (simp add: last_call_Nil)
next
  case (snoc c cs)
  obtain i d t where c: "c = (i, d, t)" by (cases c) auto
  have "dom (last_call (cs @ [c])) = insert d (dom (last_call cs))"
    unfolding c last_call_snoc by simp
  also have "\<dots> = set (map (fst \<circ> snd) (cs @ [c]))"
    unfolding snoc by (simp add: c)
  finally show ?case .
qed

lemma watermark_call_axios: "watermark_inv s \<Longrightarrow> watermark_inv (call_axios i s)"
  by (simp add: watermark_inv_def last_call_snoc)

lemma watermark_set_phase: "watermark_inv (set_phase i p s) = watermark_inv s"
  by (simp add: watermark_inv_def)

lemma watermark_start_attempt: "watermark_inv s \<Longrightarrow> watermark_inv (start_attempt i s)"
  by (cases rule: start_attempt_cases [of i s])
     (simp_all add: watermark_set_phase watermark_call_axios)

lemma watermark_settle: "watermark_inv (settle i r s) = watermark_inv s"
  by (simp add: watermark_inv_def)

lemma watermark_step:
  assumes inv: "watermark_inv s" and st: "step U s a = Some s'"
  shows "watermark_inv s'"
proof (cases a)
  case (Request config)
  have "step U s (Request config) = Some s'" by (rule st [unfolded Request])
  then have "manager s' = manager s \<and> calls s' = calls s"
    by (cases "getLimiter (manager s) (getDomain U (url_of config))") (auto simp: Let_def)
  with inv show ?thesis by (simp add: watermark_inv_def)
next
  case (Start i)
  have st': "step U s (Start i) = Some s'" by (rule st [unfolded Start])
  show ?thesis
  proof (cases "t_rateLimitCfg (tasks s ! i)")
    case None
    with st' have "s' = set_phase i (Settled TypeError) s" by (simp split: if_splits)
    with inv show ?thesis by (simp add: watermark_set_phase)
  next
    case (Some c)
    with st' have s': "s' = start_attempt i (s\<lparr>manager := limit_run (t_limiter (tasks s ! i)) (manager s)\<rparr>)"
      by (simp split: if_splits)
    have "watermark_inv (s\<lparr>manager := limit_run (t_limiter (tasks s ! i)) (manager s)\<rparr>)"
      using inv by (simp add: watermark_inv_def)
    then show ?thesis unfolding s' by (rule watermark_start_attempt)
  qed
next
  case (Timer i)
  have st': "step U s (Timer i) = Some s'" by (rule st [unfolded Timer])
  then consider "s' = call_axios i s"
    | "s' = start_attempt i (s\<lparr>tasks := (tasks s)[i := (tasks s ! i)
          \<lparr>t_retryCount := Suc (t_retryCount (tasks s ! i))\<rparr>]\<rparr>)"
    by (auto split: if_splits phase.splits)
  then show ?thesis
  proof cases
    case 1
    then show ?thesis using inv by (simp only: watermark_call_axios)
  next
    case 2
    have "watermark_inv (s\<lparr>tasks := (tasks s)[i := (tasks s ! i)
          \<lparr>t_retryCount := Suc (t_retryCount (tasks s ! i))\<rparr>]\<rparr>)"
      using inv by (simp add: watermark_inv_def)
    then show ?thesis unfolding 2 by (rule watermark_start_attempt)
  qed
next
  case (Respond i out rnd)
  have "step U s (Respond i out rnd) = Some s'" by (rule st [unfolded Respond])
  then consider r where "s' = settle i r s" | due where "s' = set_phase i (Backoff due) s"
    by (auto split: if_splits option.splits outcome.splits)
  then show ?thesis using inv
    by cases (simp_all add: watermark_settle watermark_set_phase)
next
  case (Tick dt)
  have "step U s (Tick dt) = Some s'" by (rule st [unfolded Tick])
  then have "s' = s\<lparr>clock := clock s + dt\<rparr>" by (cases "0 \<le> dt") simp_all
  with inv show ?thesis by (simp add: watermark_inv_def)
qed

lemma watermark_run:
  "watermark_inv s \<Longrightarrow> run U s as = Some s' \<Longrightarrow> watermark_inv s'"
proof (induction as arbitrary: s)
  case Nil
  then show ?case by simp
next
  case (Cons a as)
  then obtain s1 where s1: "step U s a = Some s1" "run U s1 as = Some s'"
    by (auto split: option.splits)
  from Cons.IH [OF watermark_step [OF Cons.prems(1) s1(1)] s1(2)] show ?case .
qed

subsection \<open>Reachable states\<close>

lemma watermark_init: "watermark_inv (init t0)"
  by (simp add: watermark_inv_def init_def new_lastRequestTime last_call_Nil)

lemma sched_inv_init: "sched_inv new_SafeRequestManager (init t0)"
proof (rule sched_invI)
  show "same_registry new_SafeRequestManager (manager (init t0))"
    by (simp add: same_registry_def init_def)
  show "\<forall>t\<in>set (tasks (init t0)).
       getLimiter new_SafeRequestManager (t_domain t) = Some (t_limiter t) \<and>
       t_rateLimitCfg t = getConfig new_SafeRequestManager (t_domain t)"
    by (simp add: init_def)
next
  fix k assume "k < length (limits (manager (init t0)))"
  then have "limits new_SafeRequestManager ! k \<in> set (limits new_SafeRequestManager)"
    by (simp add: init_def)
  then have "activeCount (limits new_SafeRequestManager ! k) = 0"
    unfolding new_limits by (auto simp: pLimit_def)
  then show "activeCount (limits (manager (init t0)) ! k) = slots_used (init t0) k \<and>
         activeCount (limits (manager (init t0)) ! k) \<le> limit_concurrency (limits (manager (init t0)) ! k)"
    by (simp add: init_def slots_used_def)
qed

lemma reachable_inv:
  assumes "run U (init t0) as = Some s"
  shows "sched_inv new_SafeRequestManager s" and "watermark_inv s"
  using inv_run [OF sched_inv_init assms] watermark_run [OF watermark_init assms] by simp_all

lemma running_holds_slot:
  assumes inv: "sched_inv new_SafeRequestManager s" and i: "i < length (tasks s)"
    and run: "running (tasks s ! i)"
  shows "t_limiter (tasks s ! i) < length (limits (manager s))
       \<and> 0 < activeCount (limits (manager s) ! t_limiter (tasks s ! i))"
proof -
  have "tasks s ! i \<in> set (tasks s)" using i by simp
  with sched_inv_static [OF inv]
  have "getLimiter new_SafeRequestManager (t_domain (tasks s ! i)) = Some (t_limiter (tasks s ! i))"
    by blast
  from new_limiter_concurrency(1) [OF this] sched_inv_registry [OF inv]
  have l: "t_limiter (tasks s ! i) < length (limits (manager s))" by (simp add: same_registry_def)
  from sched_inv_count [OF inv l] slots_used_pos [OF i run] l show ?thesis by simp
qed

lemma timer_keeps_limits:
  assumes "step U s (Timer i) = Some s'"
  shows "limits (manager s') = limits (manager s)"
proof -
  from assms consider "s' = call_axios i s"
    | "s' = start_attempt i (s\<lparr>tasks := (tasks s)[i := (tasks s ! i)
          \<lparr>t_retryCount := Suc (t_retryCount (tasks s ! i))\<rparr>]\<rparr>)"
    by (auto split: if_splits phase.splits)
  then show ?thesis by cases simp_all
qed

lemma respond_retry:
  assumes st: "step U s (Respond i (Failure e) rnd) = Some s'"
    and cfg: "t_rateLimitCfg (tasks s ! i) = Some cfg"
    and sr: "shouldRetry e (t_retryCount (tasks s ! i)) (or_default (maxRetries cfg) 3)"
  shows "t_phase (tasks s' ! i)
           = Backoff (clock s + getRetryDelay e (t_retryCount (tasks s ! i)) cfg rnd)
       \<and> limits (manager s') = limits (manager s)"
proof -
  from st have i: "i < length (tasks s)" by (auto split: if_splits)
  from st cfg sr i have
    "s' = set_phase i (Backoff (clock s + getRetryDelay e (t_retryCount (tasks s ! i)) cfg rnd)) s"
    by (auto split: if_splits)
  then show ?thesis using i by simp
qed



lemma waitTime_limit_run [simp]:
  "enforceRateLimit_waitTime (limit_run l m) d t = enforceRateLimit_waitTime m d t"
  by (simp add: enforceRateLimit_waitTime_def)





subsection \<open>The wait before a retry\<close>

lemma getRetryDelay_header_ignored:
  assumes "response e = Some r"
    and "headers r ''retry-after'' = None \<or> headers r ''retry-after'' = Some []
         \<or> (\<exists>h. headers r ''retry-after'' = Some h \<and> parseInt h = None)
         \<or> (\<exists>h R. headers r ''retry-after'' = Some h \<and> parseInt h = Some R \<and> R \<le> 0)"
  shows "getRetryDelay e k cfg rnd
       = calculateBackoffDelay k (or_default (baseDelay cfg) 1000)
           (or_default (maxDelay cfg) 30000) rnd"
  using assms by (auto simp: getRetryDelay_def Let_def)

lemma getRetryDelay_header_used:
  assumes "response e = Some r" and "headers r ''retry-after'' = Some h"
    and "parseInt h = Some R" and "0 < R"
  shows "getRetryDelay e k cfg rnd
       = min (real_of_int R * 1000) (or_default (maxDelay cfg) 30000)"
proof -
  from assms(3) have "h \<noteq> []" using parseInt_Nil by auto
  with assms show ?thesis by (simp add: getRetryDelay_def Let_def)
qed

text \<open>
  Claim C5, as the code has it. Take a policy of the constructed manager, with base delay
  \<open>B\<close> and maximal delay \<open>D\<close>, and a failed attempt with a response. When the response
  carries a \<^verbatim>\<open>retry-after\<close> header that \<^verbatim>\<open>parseInt\<close> reads as \<open>R\<close> seconds with \<open>R \<ge> 1\<close>,
  the retry delay is \<open>R * 1000\<close> ms clamped above by \<open>D\<close>: it lies in \<open>[0, D]\<close>, it is
  \<open>R * 1000\<close> itself when that is within \<open>D\<close>, and it is the delay the loop sleeps for
  when the attempt is retried, the backoff formula not being used. When the header reads
  as \<open>R \<le> 0\<close>, in particular \<open>R = 0\<close>, or is absent, empty or not a number, the retry
  delay is the exponential backoff delay.
\<close>

theorem retry_after_honoured:
  assumes cfg: "getConfig new_SafeRequestManager d = Some cfg"
    and r: "response e = Some r"
  shows "\<exists>B D. baseDelay cfg = Some B \<and> maxDelay cfg = Some D \<and> 0 < D
     \<and> (\<forall>h R. headers r ''retry-after'' = Some h \<and> parseInt h = Some R \<and> 0 < R
          \<longrightarrow> getRetryDelay e k cfg rnd = min (real_of_int R * 1000) D
              \<and> 0 \<le> getRetryDelay e k cfg rnd \<and> getRetryDelay e k cfg rnd \<le> D
              \<and> (real_of_int R * 1000 \<le> D
                    \<longrightarrow> getRetryDelay e k cfg rnd = real_of_int R * 1000)
              \<and> (axios k = Failure e \<and> shouldRetry e k M
                    \<longrightarrow> take 3 (snd (retry_loop axios rnds config d' cfg M k))
                        = [EnforceRateLimit d',
                           Axios (or_default (req_timeout config)
                                    (or_default (timeout cfg) 10000)),
                           Delay (min (real_of_int R * 1000) D)])
              \<and> (\<forall>U s i s'. step U s (Respond i (Failure e) rnd) = Some s'
                      \<and> t_rateLimitCfg (tasks s ! i) = Some cfg
                      \<and> shouldRetry e (t_retryCount (tasks s ! i))
                            (or_default (maxRetries cfg) 3)
                    \<longrightarrow> t_phase (tasks s' ! i)
                        = Backoff (clock s + min (real_of_int R * 1000) D)))
     \<and> (headers r ''retry-after'' = None \<or> headers r ''retry-after'' = Some []
          \<or> (\<exists>h. headers r ''retry-after'' = Some h \<and> parseInt h = None)
          \<or> (\<exists>h R. headers r ''retry-after'' = Some h \<and> parseInt h = Some R \<and> R \<le> 0)
          \<longrightarrow> getRetryDelay e k cfg rnd = calculateBackoffDelay k B D rnd)"
proof -
  from new_policy_fields [OF cfg] obtain B D where
    B: "baseDelay cfg = Some B" "0 < B" and D: "maxDelay cfg = Some D" "0 < D"
    by blast
  have oB: "or_default (baseDelay cfg) 1000 = B" and oD: "or_default (maxDelay cfg) 30000 = D"
    using B D by (simp_all add: or_default_def)
  have used: "\<forall>h R. headers r ''retry-after'' = Some h \<and> parseInt h = Some R \<and> 0 < R
          \<longrightarrow> getRetryDelay e k cfg rnd = min (real_of_int R * 1000) D
              \<and> 0 \<le> getRetryDelay e k cfg rnd \<and> getRetryDelay e k cfg rnd \<le> D
              \<and> (real_of_int R * 1000 \<le> D
                    \<longrightarrow> getRetryDelay e k cfg rnd = real_of_int R * 1000)
              \<and> (axios k = Failure e \<and> shouldRetry e k M
                    \<longrightarrow> take 3 (snd (retry_loop axios rnds config d' cfg M k))
                        = [EnforceRateLimit d',
                           Axios (or_default (req_timeout config)
                                    (or_default (timeout cfg) 10000)),
                           Delay (min (real_of_int R * 1000) D)])
              \<and> (\<forall>U s i s'. step U s (Respond i (Failure e) rnd) = Some s'
                      \<and> t_rateLimitCfg (tasks s ! i) = Some cfg
                      \<and> shouldRetry e (t_retryCount (tasks s ! i))
                            (or_default (maxRetries cfg) 3)
                    \<longrightarrow> t_phase (tasks s' ! i)
                        = Backoff (clock s + min (real_of_int R * 1000) D))"
  proof (intro allI impI)
    fix h R
    assume a: "headers r ''retry-after'' = Some h \<and> parseInt h = Some R \<and> 0 < R"
    then have h: "headers r ''retry-after'' = Some h" and p: "parseInt h = Some R"
      and R: "0 < R" by simp_all
    have g: "getRetryDelay e k' cfg rnd' = min (real_of_int R * 1000) D" for k' rnd'
      using getRetryDelay_header_used [OF r h p R, of k' cfg rnd'] by (simp only: oD)
    have c1: "getRetryDelay e k cfg rnd = min (real_of_int R * 1000) D" by (rule g)
    have c2: "0 \<le> getRetryDelay e k cfg rnd \<and> getRetryDelay e k cfg rnd \<le> D"
      unfolding c1 using R D(2) by simp
    have c3: "real_of_int R * 1000 \<le> D \<longrightarrow> getRetryDelay e k cfg rnd = real_of_int R * 1000"
      unfolding c1 by simp
    have c4: "axios k = Failure e \<and> shouldRetry e k M
                    \<longrightarrow> take 3 (snd (retry_loop axios rnds config d' cfg M k))
                        = [EnforceRateLimit d',
                           Axios (or_default (req_timeout config)
                                    (or_default (timeout cfg) 10000)),
                           Delay (min (real_of_int R * 1000) D)]"
      using retry_loop_first_events [of axios k e M rnds config d' cfg] g [of k "rnds k"]
      by simp
    have c5: "\<forall>U s i s'. step U s (Respond i (Failure e) rnd) = Some s'
                      \<and> t_rateLimitCfg (tasks s ! i) = Some cfg
                      \<and> shouldRetry e (t_retryCount (tasks s ! i))
                            (or_default (maxRetries cfg) 3)
                    \<longrightarrow> t_phase (tasks s' ! i)
                        = Backoff (clock s + min (real_of_int R * 1000) D)"
    proof (intro allI impI)
      fix U s i s'
      assume "step U s (Respond i (Failure e) rnd) = Some s'
                      \<and> t_rateLimitCfg (tasks s ! i) = Some cfg
                      \<and> shouldRetry e (t_retryCount (tasks s ! i))
                            (or_default (maxRetries cfg) 3)"
      then have "t_phase (tasks s' ! i)
           = Backoff (clock s + getRetryDelay e (t_retryCount (tasks s ! i)) cfg rnd)"
        using respond_retry by blast
      then show "t_phase (tasks s' ! i) = Backoff (clock s + min (real_of_int R * 1000) D)"
        by (simp only: g)
    qed
    from c1 c2 c3 c4 c5
    show "getRetryDelay e k cfg rnd = min (real_of_int R * 1000) D
              \<and> 0 \<le> getRetryDelay e k cfg rnd \<and> getRetryDelay e k cfg rnd \<le> D
              \<and> (real_of_int R * 1000 \<le> D
                    \<longrightarrow> getRetryDelay e k cfg rnd = real_of_int R * 1000)
              \<and> (axios k = Failure e \<and> shouldRetry e k M
                    \<longrightarrow> take 3 (snd (retry_loop axios rnds config d' cfg M k))
                        = [EnforceRateLimit d',
                           Axios (or_default (req_timeout config)
                                    (or_default (timeout cfg) 10000)),
                           Delay (min (real_of_int R * 1000) D)])
              \<and> (\<forall>U s i s'. step U s (Respond i (Failure e) rnd) = Some s'
                      \<and> t_rateLimitCfg (tasks s ! i) = Some cfg
                      \<and> shouldRetry e (t_retryCount (tasks s ! i))
                            (or_default (maxRetries cfg) 3)
                    \<longrightarrow> t_phase (tasks s' ! i)
                        = Backoff (clock s + min (real_of_int R * 1000) D))"
      by (intro conjI) (erule conjunct1 conjunct2 | assumption)+
  qed
  have ignored: "headers r ''retry-after'' = None \<or> headers r ''retry-after'' = Some []
          \<or> (\<exists>h. headers r ''retry-after'' = Some h \<and> parseInt h = None)
          \<or> (\<exists>h R. headers r ''retry-after'' = Some h \<and> parseInt h = Some R \<and> R \<le> 0)
          \<longrightarrow> getRetryDelay e k cfg rnd = calculateBackoffDelay k B D rnd"
    using getRetryDelay_header_ignored [OF r, of k cfg rnd] by (simp only: oB oD) blast
  from B(1) D used ignored show ?thesis by blast
qed

text \<open>
  Claim C5 as stated fails at \<open>R = 0\<close>: with \<^verbatim>\<open>retry-after: 0\<close>, the default policy and
  \<^verbatim>\<open>Math.random() = 0.5\<close>, the retry delay is 1250 ms, the backoff delay, not 0.
\<close>

theorem retry_after_zero_counterexample:
  "getConfig new_SafeRequestManager ''default'' = Some default_config
   \<and> parseInt ''0'' = Some 0
   \<and> getRetryDelay (ex_retry_after ''0'') 0 default_config (1 / 2) = 1250
   \<and> getRetryDelay (ex_retry_after ''0'') 0 default_config (1 / 2)
       = calculateBackoffDelay 0 1000 20000 (1 / 2)
   \<and> take 3 (snd (retry_loop (\<lambda>k. Failure (ex_retry_after ''0'')) (\<lambda>k. 1 / 2)
              (ex_get ''http://b.example:8080/y'') ''b.example'' default_config 3 0))
       = [EnforceRateLimit ''b.example'', Axios 10000, Delay 1250]"
  using retry_loop_first_events [of "\<lambda>k. Failure (ex_retry_after ''0'')" 0
      "ex_retry_after ''0''" 3 "\<lambda>k. 1 / 2" "ex_get ''http://b.example:8080/y''"
      "''b.example''" default_config]
  by (simp add: getConfig_def new_rateLimitConfig getRetryDelay_def Let_def ex_retry_after_def
      parseInt_defs default_config_def or_default_def calculateBackoffDelay_def
      shouldRetry_def ex_get_def)

text \<open>
  The theorem at the default policy (\<open>B = 1000\<close>, \<open>D = 20000\<close>) and a 429 response:
  \<^verbatim>\<open>retry-after: 12\<close> is honoured verbatim (12000 ms, also as the delay of the loop),
  \<^verbatim>\<open>retry-after: 120\<close> is clamped to 20000 ms, a header of a no-break space and \<^verbatim>\<open>1\<close>
  reads as one second, and \<^verbatim>\<open>retry-after: 0\<close> and \<^verbatim>\<open>retry-after: soon\<close> give the backoff
  delay.
\<close>

theorem retry_after_honoured_witness:
  "getConfig new_SafeRequestManager ''default'' = Some default_config
   \<and> getRetryDelay (ex_retry_after ''12'') 3 default_config (1 / 2) = 12000
   \<and> take 3 (snd (retry_loop (\<lambda>k. Failure (ex_retry_after ''12'')) (\<lambda>k. 1 / 2)
              (ex_get ''http://b.example:8080/y'') ''b.example'' default_config 3 0))
       = [EnforceRateLimit ''b.example'', Axios 10000, Delay 12000]
   \<and> getRetryDelay (ex_retry_after ''120'') 3 default_config (1 / 2) = 20000
   \<and> getRetryDelay (ex_retry_after [CHR 0xA0, CHR ''1'']) 3 default_config (1 / 2) = 1000
   \<and> getRetryDelay (ex_retry_after ''0'') 3 default_config (1 / 2)
       = calculateBackoffDelay 3 1000 20000 (1 / 2)
   \<and> getRetryDelay (ex_retry_after ''soon'') 3 default_config (1 / 2)
       = calculateBackoffDelay 3 1000 20000 (1 / 2)"
proof -
  have c: "getConfig new_SafeRequestManager ''default'' = Some default_config"
    by (simp add: getConfig_def new_rateLimitConfig)
  have r: "response (ex_retry_after h) = Some \<lparr>status = 429, headers = [''retry-after'' \<mapsto> h]\<rparr>"
    for h by (simp add: ex_retry_after_def)
  have hd: "headers \<lparr>status = 429, headers = [''retry-after'' \<mapsto> h]\<rparr> ''retry-after'' = Some h"
    for h :: string by simp
  have p: "parseInt ''12'' = Some 12" "parseInt ''120'' = Some 120"
    "parseInt [CHR 0xA0, CHR ''1''] = Some 1" "parseInt ''0'' = Some 0"
    "parseInt ''soon'' = None"
    by (simp_all add: parseInt_defs)
  have sr: "shouldRetry (ex_retry_after ''12'') 0 3"
    by (simp add: shouldRetry_def ex_retry_after_def)
  have B: "baseDelay default_config = Some B \<Longrightarrow> B = 1000"
    and D: "maxDelay default_config = Some D \<Longrightarrow> D = 20000" for B D
    by (simp_all add: default_config_def)
  have t: "or_default (req_timeout (ex_get ''http://b.example:8080/y''))
             (or_default (timeout default_config) 10000) = 10000"
    by (simp add: ex_get_def default_config_def or_default_def)
  note main = retry_after_honoured [OF c r, where rnd = "1 / 2"
      and axios = "\<lambda>k. Failure (ex_retry_after ''12'')" and M = 3
      and rnds = "\<lambda>k. 1 / 2" and config = "ex_get ''http://b.example:8080/y''"
      and d' = "''b.example''"]
  have used: "getRetryDelay (ex_retry_after h) 3 default_config (1 / 2)
        = min (real_of_int R * 1000) 20000"
    if "parseInt h = Some R" and "0 < R" for h R
  proof -
    from main [of h 3] obtain D' where "maxDelay default_config = Some D'"
      and u: "\<forall>h' R'. headers \<lparr>status = 429, headers = [''retry-after'' \<mapsto> h]\<rparr> ''retry-after''
                  = Some h' \<and> parseInt h' = Some R' \<and> 0 < R'
            \<longrightarrow> getRetryDelay (ex_retry_after h) 3 default_config (1 / 2)
                = min (real_of_int R' * 1000) D'"
      by blast
    from D [OF this(1)] u hd [of h] that show ?thesis by blast
  qed
  have ignored: "getRetryDelay (ex_retry_after h) 3 default_config (1 / 2)
        = calculateBackoffDelay 3 1000 20000 (1 / 2)"
    if "parseInt h = None \<or> (\<exists>R. parseInt h = Some R \<and> R \<le> 0)" for h
  proof -
    from main [of h 3] obtain B' D' where "baseDelay default_config = Some B'"
      and "maxDelay default_config = Some D'"
      and u: "headers \<lparr>status = 429, headers = [''retry-after'' \<mapsto> h]\<rparr> ''retry-after'' = None
          \<or> headers \<lparr>status = 429, headers = [''retry-after'' \<mapsto> h]\<rparr> ''retry-after'' = Some []
          \<or> (\<exists>h'. headers \<lparr>status = 429, headers = [''retry-after'' \<mapsto> h]\<rparr> ''retry-after''
                  = Some h' \<and> parseInt h' = None)
          \<or> (\<exists>h' R. headers \<lparr>status = 429, headers = [''retry-after'' \<mapsto> h]\<rparr> ''retry-after''
                  = Some h' \<and> parseInt h' = Some R \<and> R \<le> 0)
          \<longrightarrow> getRetryDelay (ex_retry_after h) 3 default_config (1 / 2)
              = calculateBackoffDelay 3 B' D' (1 / 2)"
      by blast
    from B [OF this(1)] D [OF this(2)] u hd [of h] that show ?thesis by blast
  qed
  have a: "getRetryDelay (ex_retry_after ''12'') 3 default_config (1 / 2) = 12000"
    using used [OF p(1)] by simp
  have b: "take 3 (snd (retry_loop (\<lambda>k. Failure (ex_retry_after ''12'')) (\<lambda>k. 1 / 2)
              (ex_get ''http://b.example:8080/y'') ''b.example'' default_config 3 0))
       = [EnforceRateLimit ''b.example'', Axios 10000, Delay 12000]"
  proof -
    from main [of "''12''" 0] obtain D' where D': "maxDelay default_config = Some D'"
      and u: "\<forall>h' R'. headers \<lparr>status = 429, headers = [''retry-after'' \<mapsto> ''12'']\<rparr>
                    ''retry-after'' = Some h' \<and> parseInt h' = Some R' \<and> 0 < R'
            \<longrightarrow> (Failure (ex_retry_after ''12'') = Failure (ex_retry_after ''12'')
                  \<and> shouldRetry (ex_retry_after ''12'') 0 3
                \<longrightarrow> take 3 (snd (retry_loop (\<lambda>k. Failure (ex_retry_after ''12'')) (\<lambda>k. 1 / 2)
                      (ex_get ''http://b.example:8080/y'') ''b.example'' default_config 3 0))
                    = [EnforceRateLimit ''b.example'',
                       Axios (or_default (req_timeout (ex_get ''http://b.example:8080/y''))
                                (or_default (timeout default_config) 10000)),
                       Delay (min (real_of_int R' * 1000) D')])"
      by blast
    have pos: "(0::int) < 12" by simp
    from D [OF D'] u hd [of "''12''"] p(1) sr pos
    have "take 3 (snd (retry_loop (\<lambda>k. Failure (ex_retry_after ''12'')) (\<lambda>k. 1 / 2)
                      (ex_get ''http://b.example:8080/y'') ''b.example'' default_config 3 0))
          = [EnforceRateLimit ''b.example'',
             Axios (or_default (req_timeout (ex_get ''http://b.example:8080/y''))
                      (or_default (timeout default_config) 10000)),
             Delay (min (real_of_int 12 * 1000) 20000)]"
      by blast
    then show ?thesis using t by simp
  qed
  have d: "getRetryDelay (ex_retry_after ''120'') 3 default_config (1 / 2) = 20000"
    using used [OF p(2)] by simp
  have e: "getRetryDelay (ex_retry_after [CHR 0xA0, CHR ''1'']) 3 default_config (1 / 2) = 1000"
    using used [OF p(3)] by simp
  have f: "getRetryDelay (ex_retry_after ''0'') 3 default_config (1 / 2)
       = calculateBackoffDelay 3 1000 20000 (1 / 2)"
    using ignored [of "''0''"] p(4) by simp
  have g: "getRetryDelay (ex_retry_after ''soon'') 3 default_config (1 / 2)
       = calculateBackoffDelay 3 1000 20000 (1 / 2)"
    using ignored [of "''soon''"] p(5) by simp
  from c a b d e f g show ?thesis by simp
qed

subsection \<open>Concurrency cap\<close>

text \<open>
  Claim C4. In every state that concurrent requests can reach from the constructed
  manager, and for every domain, the number of HTTP calls in flight to the domain is at
  most the concurrency of the policy the domain resolves to.
\<close>

theorem inflight_bounded:
  assumes "run U (init t0) as = Some s"
  shows "\<exists>cfg c. getConfig new_SafeRequestManager d = Some cfg \<and> concurrency cfg = Some c
           \<and> inflight_count s d \<le> c"
proof -
  note inv = reachable_inv(1) [OF assms]
  obtain l where l: "getLimiter new_SafeRequestManager d = Some l"
    using getLimiter_new_total by blast
  from new_limiter_concurrency [OF l] obtain cfg where l5: "l < length (limits new_SafeRequestManager)"
    and cfg: "getConfig new_SafeRequestManager d = Some cfg"
      "concurrency cfg = Some (limit_concurrency (limits new_SafeRequestManager ! l))"
    by blast
  have g: "same_registry new_SafeRequestManager (manager s)" by (rule sched_inv_registry [OF inv])
  then have ls: "l < length (limits (manager s))" using l5 by (simp add: same_registry_def)
  have "inflight_count s d \<le> slots_used s l"
    unfolding inflight_count_def slots_used_def
  proof (rule filter_length_mono)
    fix t assume t: "t \<in> set (tasks s)" and "t_domain t = d \<and> in_flight t"
    then have "running t" and "t_domain t = d" by (simp_all add: in_flight_running)
    moreover from sched_inv_static [OF inv] t l \<open>t_domain t = d\<close> have "t_limiter t = l" by auto
    ultimately show "t_limiter t = l \<and> running t" by simp
  qed
  also have "\<dots> = activeCount (limits (manager s) ! l)"
    by (rule sched_inv_count [OF inv ls, symmetric])
  also have "\<dots> \<le> limit_concurrency (limits (manager s) ! l)"
    by (rule sched_inv_bound [OF inv ls])
  also have "\<dots> = limit_concurrency (limits new_SafeRequestManager ! l)"
    by (rule same_registry_concurrency [OF g ls])
  finally show ?thesis using cfg by blast
qed

text \<open>
  The theorem after two requests to one unconfigured domain have started.
\<close>

theorem inflight_bounded_witness:
  "run ex_url (init 1000) ex_shared_run \<noteq> None
   \<and> (\<exists>cfg c. getConfig new_SafeRequestManager ''a.example'' = Some cfg
         \<and> concurrency cfg = Some c
         \<and> inflight_count (the (run ex_url (init 1000) ex_shared_run)) ''a.example'' \<le> c)"
proof -
  obtain s where s: "run ex_url (init 1000) ex_shared_run = Some s"
    by (simp add: ex_shared_run_def run_defs)
  from inflight_bounded [OF s, of "''a.example''"] s show ?thesis by simp
qed

subsection \<open>The slot during the backoff sleep\<close>

text \<open>
  Claim C2, as the code has it. The slot is taken once, when the limiter starts the
  callback, and is held for the whole retry loop. In every reachable state: a failed
  attempt that will be retried puts the request to its backoff sleep and leaves every
  limiter as it is (no slot is released); the timers that end the sleep and the spacing
  wait leave every limiter as it is (no slot is taken again); a request in its backoff
  sleep occupies a slot of its limiter; and every limiter counts exactly the requests
  between their start and their settling, the sleeping ones included.
\<close>

theorem slot_held_during_backoff:
  assumes "run U (init t0) as = Some s"
  shows "(\<forall>i e rnd s' cfg.
            step U s (Respond i (Failure e) rnd) = Some s'
            \<and> t_rateLimitCfg (tasks s ! i) = Some cfg
            \<and> shouldRetry e (t_retryCount (tasks s ! i)) (or_default (maxRetries cfg) 3)
            \<longrightarrow> t_phase (tasks s' ! i)
                  = Backoff (clock s + getRetryDelay e (t_retryCount (tasks s ! i)) cfg rnd)
                \<and> limits (manager s') = limits (manager s))
       \<and> (\<forall>i s'. step U s (Timer i) = Some s' \<longrightarrow> limits (manager s') = limits (manager s))
       \<and> (\<forall>i due. i < length (tasks s) \<and> t_phase (tasks s ! i) = Backoff due
            \<longrightarrow> t_limiter (tasks s ! i) < length (limits (manager s))
                \<and> 0 < activeCount (limits (manager s) ! t_limiter (tasks s ! i)))
       \<and> (\<forall>l. l < length (limits (manager s))
            \<longrightarrow> activeCount (limits (manager s) ! l)
                  = length (filter (\<lambda>t. t_limiter t = l \<and> running t) (tasks s)))"
proof (intro conjI allI impI)
  note inv = reachable_inv(1) [OF assms]
  {
    fix i e rnd s' cfg
    assume "step U s (Respond i (Failure e) rnd) = Some s'
            \<and> t_rateLimitCfg (tasks s ! i) = Some cfg
            \<and> shouldRetry e (t_retryCount (tasks s ! i)) (or_default (maxRetries cfg) 3)"
    then have r: "t_phase (tasks s' ! i)
           = Backoff (clock s + getRetryDelay e (t_retryCount (tasks s ! i)) cfg rnd)
       \<and> limits (manager s') = limits (manager s)"
      using respond_retry by blast
    from r show "t_phase (tasks s' ! i)
           = Backoff (clock s + getRetryDelay e (t_retryCount (tasks s ! i)) cfg rnd)" ..
    from r show "limits (manager s') = limits (manager s)" ..
  next
    fix i s' assume "step U s (Timer i) = Some s'"
    then show "limits (manager s') = limits (manager s)" by (rule timer_keeps_limits)
  next
    fix i due assume "i < length (tasks s) \<and> t_phase (tasks s ! i) = Backoff due"
    then have i: "i < length (tasks s)" and "running (tasks s ! i)"
      by (simp_all add: running_def)
    from running_holds_slot [OF inv this]
    show "t_limiter (tasks s ! i) < length (limits (manager s))"
      and "0 < activeCount (limits (manager s) ! t_limiter (tasks s ! i))" by simp_all
  next
    fix l assume "l < length (limits (manager s))"
    from sched_inv_count [OF inv this]
    show "activeCount (limits (manager s) ! l)
          = length (filter (\<lambda>t. t_limiter t = l \<and> running t) (tasks s))"
      by (simp add: slots_used_def)
  }
qed

text \<open>
  Claim C2 as stated fails. Two requests go to \<^verbatim>\<open>api.myanimelist.net\<close>, whose limiter has
  one slot; the first is answered with 503 and sleeps until 2000; the slot is still
  occupied, and the second request cannot start.
\<close>

theorem backoff_holds_slot_counterexample:
  "map_option (map t_phase \<circ> tasks) (run ex_url (init 1000) ex_backoff_run)
     = Some [Backoff 2000, Queued]
   \<and> map_option (map activeCount \<circ> limits \<circ> manager) (run ex_url (init 1000) ex_backoff_run)
     = Some [0, 1, 0, 0, 0]
   \<and> map_option (map limit_concurrency \<circ> limits \<circ> manager) (run ex_url (init 1000) ex_backoff_run)
     = Some [2, 1, 3, 5, 2]
   \<and> run ex_url (init 1000) (ex_backoff_run @ [Start 1]) = None"
  by (simp add: ex_backoff_run_def ex_before_backoff_def run_defs)

text \<open>
  The theorem in that state: the sleeping request occupies a slot.
\<close>

theorem slot_held_during_backoff_witness:
  "run ex_url (init 1000) ex_backoff_run \<noteq> None
   \<and> t_phase (tasks (the (run ex_url (init 1000) ex_backoff_run)) ! 0) = Backoff 2000
   \<and> 0 < activeCount (limits (manager (the (run ex_url (init 1000) ex_backoff_run)))
            ! t_limiter (tasks (the (run ex_url (init 1000) ex_backoff_run)) ! 0))
   \<and> limits (manager (the (run ex_url (init 1000) ex_backoff_run)))
       = limits (manager (the (run ex_url (init 1000) ex_before_backoff)))
   \<and> run ex_url (init 1000) (ex_backoff_run @ [Tick 1000, Timer 0]) \<noteq> None
   \<and> limits (manager (the (run ex_url (init 1000) (ex_backoff_run @ [Tick 1000, Timer 0]))))
       = limits (manager (the (run ex_url (init 1000) (ex_backoff_run @ [Tick 1000]))))"
proof -
  obtain s0 where s0: "run ex_url (init 1000) ex_before_backoff = Some s0"
    by (simp add: ex_before_backoff_def run_defs)
  have pre: "t_rateLimitCfg (tasks s0 ! 0) = Some mal_config" "t_retryCount (tasks s0 ! 0) = 0"
    "clock s0 = 1000"
    using s0 by (auto simp: ex_before_backoff_def run_defs)
  obtain s where st: "step ex_url s0 (Respond 0 (Failure ex_unavailable) 0) = Some s"
    using s0 by (auto simp: ex_before_backoff_def run_defs)
  have s: "run ex_url (init 1000) ex_backoff_run = Some s"
    using s0 st by (simp add: ex_backoff_run_def run_append)
  have sr: "shouldRetry ex_unavailable (t_retryCount (tasks s0 ! 0))
              (or_default (maxRetries mal_config) 3)"
    by (simp add: pre shouldRetry_def ex_unavailable_def mal_config_def or_default_def)
  from slot_held_during_backoff [OF s0] st pre(1) sr
  have kept: "t_phase (tasks s ! 0)
       = Backoff (clock s0 + getRetryDelay ex_unavailable (t_retryCount (tasks s0 ! 0)) mal_config 0)
     \<and> limits (manager s) = limits (manager s0)"
    by blast
  then have ph: "t_phase (tasks s ! 0) = Backoff 2000"
    by (simp add: pre getRetryDelay_def calculateBackoffDelay_def ex_unavailable_def
        mal_config_def or_default_def)
  have len: "0 < length (tasks s)"
    using s by (auto simp: ex_backoff_run_def ex_before_backoff_def run_defs)
  from slot_held_during_backoff [OF s] len ph
  have held: "0 < activeCount (limits (manager s) ! t_limiter (tasks s ! 0))" by blast
  obtain s1 where s1: "run ex_url (init 1000) (ex_backoff_run @ [Tick 1000]) = Some s1"
    by (simp add: ex_backoff_run_def ex_before_backoff_def run_defs)
  obtain s2 where t: "step ex_url s1 (Timer 0) = Some s2"
    using s1 by (auto simp: ex_backoff_run_def ex_before_backoff_def run_defs)
  have s2: "run ex_url (init 1000) (ex_backoff_run @ [Tick 1000, Timer 0]) = Some s2"
    using run_append [of ex_url "init 1000" "ex_backoff_run @ [Tick 1000]" "[Timer 0]"] s1 t
    by simp
  from slot_held_during_backoff [OF s1] t
  have woke: "limits (manager s2) = limits (manager s1)" by blast
  from s0 s kept ph held s1 s2 woke show ?thesis by simp
qed

subsection \<open>Spacing\<close>




subsection \<open>Limiters and last request times per domain\<close>

text \<open>
  Claim C8, as the code has it. The constructor creates five limiters, one for each of
  the keys \<^verbatim>\<open>graphql.anilist.co\<close>, \<^verbatim>\<open>api.myanimelist.net\<close>, \<^verbatim>\<open>api.themoviedb.org\<close>,
  \<^verbatim>\<open>localhost\<close> and \<^verbatim>\<open>default\<close>, each key with a limiter of its own; no request creates
  or replaces a limiter, and every domain that is not one of the keys uses the limiter
  of \<^verbatim>\<open>default\<close>. The last request time is kept per domain: none exists at the start,
  the domains that have one are exactly those that \<^verbatim>\<open>axios\<close> has been called for, and
  storing the time of one domain leaves the times of all other domains as they are.
\<close>

theorem limiters_of_the_registry:
  assumes "run U (init t0) as = Some s"
  shows "dom (limiters new_SafeRequestManager)
           = {''graphql.anilist.co'', ''api.myanimelist.net'', ''api.themoviedb.org'',
              ''localhost'', ''default''}
       \<and> length (limits new_SafeRequestManager) = 5
       \<and> inj_on (limiters new_SafeRequestManager) (dom (limiters new_SafeRequestManager))
       \<and> (\<forall>d. d \<notin> dom (limiters new_SafeRequestManager)
            \<longrightarrow> getLimiter new_SafeRequestManager d = limiters new_SafeRequestManager ''default'')
       \<and> limiters (manager s) = limiters new_SafeRequestManager
       \<and> length (limits (manager s)) = length (limits new_SafeRequestManager)
       \<and> (\<forall>t \<in> set (tasks s).
             getLimiter new_SafeRequestManager (t_domain t) = Some (t_limiter t))
       \<and> lastRequestTime (manager (init t0)) = Map.empty
       \<and> dom (lastRequestTime (manager s)) = set (map (fst \<circ> snd) (calls s))
       \<and> (\<forall>m d t d'. d' \<noteq> d
            \<longrightarrow> lastRequestTime (enforceRateLimit_set m d t) d' = lastRequestTime m d')"
proof -
  note inv = reachable_inv [OF assms]
  have g: "limiters (manager s) = limiters new_SafeRequestManager
       \<and> length (limits (manager s)) = length (limits new_SafeRequestManager)"
    using sched_inv_registry [OF inv(1)] by (simp add: same_registry_def)
  have t: "\<forall>t \<in> set (tasks s).
             getLimiter new_SafeRequestManager (t_domain t) = Some (t_limiter t)"
    using sched_inv_static [OF inv(1)] by blast
  have w0: "lastRequestTime (manager (init t0)) = Map.empty"
    by (simp add: init_def new_lastRequestTime)
  have w: "dom (lastRequestTime (manager s)) = set (map (fst \<circ> snd) (calls s))"
    using inv(2) dom_last_call [of "calls s"] by (simp only: watermark_inv_def)
  have i: "\<forall>m d t d'. d' \<noteq> d
            \<longrightarrow> lastRequestTime (enforceRateLimit_set m d t) d' = lastRequestTime m d'"
    by simp
  have n: "length (limits new_SafeRequestManager) = 5" by (simp add: new_limits)
  from new_limiters_dom n new_limiters_inj getLimiter_new_shared g t w0 w i
  show ?thesis by blast
qed

text \<open>
  Claim C8 as stated fails. Two distinct unconfigured domains resolve to the same
  limiter; when two requests to \<^verbatim>\<open>a.example\<close> occupy its two slots, a request to
  \<^verbatim>\<open>b.example\<close> cannot start.
\<close>

theorem shared_default_limiter_counterexample:
  "getLimiter new_SafeRequestManager ''a.example'' = Some 4
   \<and> getLimiter new_SafeRequestManager ''b.example'' = Some 4
   \<and> map_option (map t_domain \<circ> tasks) (run ex_url (init 1000) ex_shared_run)
       = Some [''a.example'', ''a.example'', ''b.example'']
   \<and> map_option (map t_limiter \<circ> tasks) (run ex_url (init 1000) ex_shared_run) = Some [4, 4, 4]
   \<and> map_option (map t_phase \<circ> tasks) (run ex_url (init 1000) ex_shared_run)
       = Some [InFlight, Spacing 1100, Queued]
   \<and> map_option (map activeCount \<circ> limits \<circ> manager) (run ex_url (init 1000) ex_shared_run)
       = Some [0, 0, 0, 0, 2]
   \<and> run ex_url (init 1000) (ex_shared_run @ [Start 2]) = None"
  by (simp add: ex_shared_run_def run_defs)

text \<open>
  The theorem in that state.
\<close>

theorem limiters_of_the_registry_witness:
  "run ex_url (init 1000) ex_shared_run \<noteq> None
   \<and> ''a.example'' \<notin> dom (limiters new_SafeRequestManager)
   \<and> getLimiter new_SafeRequestManager ''a.example'' = limiters new_SafeRequestManager ''default''
   \<and> limiters (manager (the (run ex_url (init 1000) ex_shared_run)))
       = limiters new_SafeRequestManager
   \<and> lastRequestTime (enforceRateLimit_set new_SafeRequestManager ''a.example'' 1000) ''b.example''
       = lastRequestTime new_SafeRequestManager ''b.example''"
proof -
  obtain s where s: "run ex_url (init 1000) ex_shared_run = Some s"
    by (simp add: ex_shared_run_def run_defs)
  note main = limiters_of_the_registry [OF s]
  have a: "''a.example'' \<notin> dom (limiters new_SafeRequestManager)"
    by (simp add: new_limiters dom_def)
  have ne: "''b.example'' \<noteq> ''a.example''" by simp
  from main a have 1: "getLimiter new_SafeRequestManager ''a.example''
       = limiters new_SafeRequestManager ''default''" by blast
  from main have 2: "limiters (manager s) = limiters new_SafeRequestManager" by blast
  from main have "\<And>m d t d'. d' \<noteq> d
      \<Longrightarrow> lastRequestTime (enforceRateLimit_set m d t) d' = lastRequestTime m d'" by blast
  from this [OF ne] have 3: "lastRequestTime
       (enforceRateLimit_set new_SafeRequestManager ''a.example'' 1000) ''b.example''
       = lastRequestTime new_SafeRequestManager ''b.example''" .
  from s a 1 2 3 show ?thesis by simp
qed

end
